theory Spec2Isabelle
  imports Complex_Main "HOL-Library.Word" "HOL-Library.Sublist"
begin

section \<open>Errors raised by the Python code\<close>

datatype py_error = ValueError | KeyError | ZeroDivisionError | IndexError

section \<open>ContinuationConstraint (text\_utils/constraints.py)\<close>

text \<open>
  The continuation index is an object of the compiled extension module; the Python code
  only calls its two queries \<open>get(prefix)\<close> and \<open>continuation_at(index)\<close>. It is taken
  as a parameter: a pair of functions. \<open>continuation_at\<close> may raise (here \<open>None\<close>).
  The \<open>value\<close> attribute is called \<open>cvalue\<close> here.
\<close>

type_synonym byte = "8 word"

record 'v continuation_index =
  ci_get :: "byte list \<Rightarrow> nat list \<times> 'v option"
  continuation_at :: "int \<Rightarrow> byte list option"

record 'v constraint_obj =
  prefix :: "byte list"
  indices :: "nat list"
  cvalue :: "'v option"
  cont_index :: "'v continuation_index"

text \<open>
  Constraint objects live in a store; a reference is an index into it and a new object
  is allocated at the end. \<open>bytes\<close> values are immutable in Python, so the prefix is a
  value; the attributes of an object are what \<open>next\<close> and \<open>reset\<close> rebind.
\<close>

type_synonym addr = nat
type_synonym 'v store = "'v constraint_obj list"

text \<open>\<open>__init__\<close>: \<open>prefix or bytes()\<close> is the empty byte string for \<open>None\<close> and for \<open>b""\<close>.\<close>

definition init_constraint ::
  "'v store \<Rightarrow> 'v continuation_index \<Rightarrow> byte list option \<Rightarrow> 'v store \<times> addr" where
  "init_constraint h ci pre =
     (let p = (case pre of None \<Rightarrow> [] | Some bs \<Rightarrow> bs);
          (i, v) = ci_get ci p
      in (h @ [\<lparr>prefix = p, indices = i, cvalue = v, cont_index = ci\<rparr>], length h))"

definition is_match :: "'v store \<Rightarrow> addr \<Rightarrow> bool" where
  "is_match h a = (cvalue (h ! a) \<noteq> None)"

definition get :: "'v store \<Rightarrow> addr \<Rightarrow> nat list \<times> bool" where
  "get h a = (indices (h ! a), is_match h a)"

definition reset :: "'v store \<Rightarrow> addr \<Rightarrow> byte list option \<Rightarrow> 'v store" where
  "reset h a inp =
     (let p = (case inp of None \<Rightarrow> [] | Some bs \<Rightarrow> bs);
          (i, v) = ci_get (cont_index (h ! a)) p
      in h[a := (h ! a)\<lparr>prefix := p, indices := i, cvalue := v\<rparr>])"

text \<open>\<open>next\<close>: when \<open>continuation_at\<close> raises, nothing has been assigned yet.\<close>

definition next_c :: "'v store \<Rightarrow> addr \<Rightarrow> int \<Rightarrow> py_error + 'v store" where
  "next_c h a index =
     (case continuation_at (cont_index (h ! a)) index of
        None \<Rightarrow> Inl IndexError
      | Some bs \<Rightarrow>
          (let p = prefix (h ! a) @ bs;
               (i, v) = ci_get (cont_index (h ! a)) p
           in Inr (h[a := (h ! a)\<lparr>prefix := p, indices := i, cvalue := v\<rparr>])))"

definition clone :: "'v store \<Rightarrow> addr \<Rightarrow> 'v store \<times> addr" where
  "clone h a = init_constraint h (cont_index (h ! a)) (Some (prefix (h ! a)))"

definition get_value :: "'v store \<Rightarrow> addr \<Rightarrow> 'v option" where
  "get_value h a = cvalue (h ! a)"

text \<open>
  A sequence of \<open>next\<close> calls on one object; a call that raises ends the sequence and
  leaves the store as it was before that call.
\<close>

fun nexts :: "'v store \<Rightarrow> addr \<Rightarrow> int list \<Rightarrow> 'v store" where
  "nexts h a [] = h"
| "nexts h a (i # is) = (case next_c h a i of Inl e \<Rightarrow> h | Inr h' \<Rightarrow> nexts h' a is)"

section \<open>TextProcessor.\_get\_loader (text\_utils/api/processor.py)\<close>

datatype cfg_value =
    VInt int
  | VStr string
  | VBool bool
  | VDict "(string \<times> cfg_value) list"

text \<open>
  What \<open>_get_loader\<close> reads from the processor and the platform: the \<open>"inference"\<close>
  section of \<open>self.cfg\<close>, \<open>self.max_length\<close>, the number of CPUs of
  \<open>os.sched_getaffinity(0)\<close> and \<open>sys.maxsize\<close>. A configuration without the
  section raises \<open>KeyError\<close> where one without a tokenizer entry does, so it is the
  empty section here.
\<close>

record processor =
  cfg_inference :: "string \<rightharpoonup> cfg_value"
  max_length_p :: int
  sched_affinity :: nat
  sys_maxsize :: int

text \<open>
  The name \<open>sorted\<close> in the branch is Python's builtin function, which the module does
  not rebind; the truth value of a function object is \<open>True\<close>.
\<close>

definition builtin_sorted_truthy :: bool where
  "builtin_sorted_truthy = True"

text \<open>
  \<open>math.ceil(a / b)\<close> on integers, written with integer division (the float quotient of
  the source is exact for the magnitudes of token counts).
\<close>

definition ceil_div :: "int \<Rightarrow> int \<Rightarrow> int" where
  "ceil_div a b = - ((- a) div b)"

text \<open>
  The function up to the dictionary it hands to \<open>InferenceLoader.from_iterator\<close>:
  the dictionary literal, then \<open>inference_cfg.update(kwargs)\<close>. The parameter \<open>sort\<close>
  is called \<open>sort_flag\<close> here.
\<close>

definition get_loader ::
  "processor \<Rightarrow> int \<Rightarrow> int option \<Rightarrow> bool \<Rightarrow> int option \<Rightarrow> (string \<rightharpoonup> cfg_value)
     \<Rightarrow> py_error + (string \<rightharpoonup> cfg_value)" where
  "get_loader self batch_size batch_max_tokens sort_flag num_threads kwargs =
     (let nt = (case num_threads of
                  None \<Rightarrow> min (int (sched_affinity self)) 4
                | Some n \<Rightarrow> n)
      in case (case batch_max_tokens of
                 None \<Rightarrow> Inr (max 1 batch_size, ''batch_size'', max 1 batch_size)
               | Some bmt \<Rightarrow>
                   (let batch_limit = max bmt (max_length_p self)
                    in if max_length_p self = 0 then Inl ZeroDivisionError
                       else Inr (batch_limit, ''padded_item_size'',
                                 ceil_div batch_limit (max_length_p self)))) of
           Inl e \<Rightarrow> Inl e
         | Inr (batch_limit, batch_limit_type, buffer_size) \<Rightarrow>
             (let prefetch_factor = (if builtin_sorted_truthy then sys_maxsize self else 1)
              in case cfg_inference self ''tokenizer'' of
                   None \<Rightarrow> Inl KeyError
                 | Some tok \<Rightarrow>
                     Inr ([''tokenizer'' \<mapsto> tok,
                           ''window'' \<mapsto> (case cfg_inference self ''window'' of
                                              None \<Rightarrow> VDict [(''type'', VStr ''full'')]
                                            | Some w \<Rightarrow> w),
                           ''num_threads'' \<mapsto> VInt nt,
                           ''batch_limit'' \<mapsto> VInt batch_limit,
                           ''buffer_size'' \<mapsto> VInt buffer_size,
                           ''prefetch_factor'' \<mapsto> VInt prefetch_factor,
                           ''batch_limit_type'' \<mapsto> VStr batch_limit_type,
                           ''sort'' \<mapsto> VBool sort_flag] ++ kwargs)))"

section \<open>Beam search (text\_utils/inference/\_\_init\_\_.py)\<close>

subsection \<open>Beams and the default score\<close>

text \<open>
  Modelled from the spec: the class \<open>Beam\<close> of \<open>text_utils.inference.utils\<close>, which is
  not among the sources. A beam is a sequence of token ids with a parallel sequence of
  log-probabilities and an optional opaque side state; \<open>log_prob\<close> is the sum of the
  log-probabilities and \<open>len(beam)\<close> the number of token ids. Floats are modelled as reals.
\<close>

record 'x beam =
  token_ids :: "int list"
  log_probs :: "real list"
  extra :: "'x option"

definition log_prob :: "'x beam \<Rightarrow> real" where
  "log_prob b = sum_list (log_probs b)"

definition beam_len :: "'x beam \<Rightarrow> nat" where
  "beam_len b = length (token_ids b)"

text \<open>
  Modelled from the spec: \<open>log_likelihood_score\<close> of \<open>text_utils.inference.utils\<close>, not
  among the sources: the cumulative log-probability, divided by \<open>len(beam) ** alpha\<close>
  when normalisation is on. (For an empty beam the quotient is HOL's \<open>x / 0 = 0\<close>; no
  property below depends on the values of the score.)
\<close>

definition log_likelihood_score :: "bool \<Rightarrow> real \<Rightarrow> 'x beam \<Rightarrow> real" where
  "log_likelihood_score norm_by_len alpha_exp b =
     (if norm_by_len then log_prob b / (real (beam_len b) powr alpha_exp) else log_prob b)"

subsection \<open>Python's slicing and sorting\<close>

text \<open>\<open>xs[:k]\<close>: a negative \<open>k\<close> counts from the end.\<close>

definition py_slice_to :: "int \<Rightarrow> 'a list \<Rightarrow> 'a list" where
  "py_slice_to k xs =
     (if 0 \<le> k then take (nat k) xs else take (length xs - nat (- k)) xs)"

text \<open>
  \<open>sorted(xs, key=f, reverse=True)\<close>: CPython reverses the list, sorts it stably in
  ascending order of the key and reverses the result, so that elements with equal keys
  keep their order.
\<close>

definition py_sorted_rev :: "('a \<Rightarrow> real) \<Rightarrow> 'a list \<Rightarrow> 'a list" where
  "py_sorted_rev f xs = rev (sort_key f (rev xs))"

subsection \<open>Arguments and state of one call\<close>

text \<open>
  Lines 111 to 189 of the loop body build tensors from the active beams, call the
  update and select functions on the keyword state, call \<open>decode_fn\<close>, the logit
  functions, \<open>log_softmax\<close> and, for every beam, \<open>sample_fn\<close>. The callables are the
  caller's and the tensor operations are those of torch; together they are taken as one
  parameter \<open>decode_step\<close>. Given the state outside the engine (keyword state,
  decoder info and whatever else the callables keep, of type \<open>'w\<close>),
  \<open>update_info\<close> and the active beams of all groups, it returns the new outside
  state and, for group \<open>idx\<close> and beam \<open>beam_idx\<close>, the token ids
  \<open>sample_fn(log_probs[beam_idx], beam_width).tolist()\<close> and the entries
  \<open>log_probs[beam_idx, token_id].item()\<close>. A callable that raises aborts the call;
  the model covers the calls in which none does.
\<close>

record round_scores =
  sampled :: "nat \<Rightarrow> nat \<Rightarrow> int list"
  log_prob_at :: "nat \<Rightarrow> nat \<Rightarrow> int \<Rightarrow> real"

text \<open>
  The arguments of \<open>beam_search\<close> that stay fixed during the call. \<open>candidate_fn\<close> may
  read and change the outside state too; \<open>stop_fn\<close> and \<open>score_fn\<close> are functions of
  the beam.
\<close>

record ('x, 'w) search_args =
  decode_step :: "'w \<Rightarrow> nat list \<Rightarrow> 'x beam list list \<Rightarrow> 'w \<times> round_scores"
  max_length :: int
  stop_fn :: "'x beam \<Rightarrow> bool"
  normalize_by_length :: bool
  alpha :: real
  beam_width :: int
  candidate_fn :: "'w \<Rightarrow> 'x beam \<Rightarrow> int \<Rightarrow> real \<Rightarrow> 'w \<times> 'x beam option"
  score_fn :: "'x beam \<Rightarrow> real"
  return_incomplete :: bool
  yield_intermediate :: bool

record ('x, 'w) search_state =
  current_beams :: "'x beam list list"
  beam_queues :: "'x beam list list"
  update_info :: "nat list"
  world :: 'w

subsection \<open>The initial beams\<close>

text \<open>
  One entry of \<open>initial\<close>: a beam, a list of token ids, a list of beams, or a non-empty
  list whose first element is neither an integer nor a beam.
\<close>

datatype 'x initial = Single "'x beam" | Tokens "int list" | Beams "'x beam list" | Invalid

fun initial_beams :: "'x initial \<Rightarrow> py_error + 'x beam list" where
  "initial_beams (Single b) = Inr [b]"
| "initial_beams (Tokens []) = Inr []"
| "initial_beams (Beams []) = Inr []"
| "initial_beams (Tokens ts) =
     Inr [\<lparr>token_ids = ts, log_probs = replicate (length ts) 0, extra = None\<rparr>]"
| "initial_beams (Beams bs) = Inr bs"
| "initial_beams Invalid = Inl ValueError"

fun all_initial_beams :: "'x initial list \<Rightarrow> py_error + 'x beam list list" where
  "all_initial_beams [] = Inr []"
| "all_initial_beams (i # is) =
     (case initial_beams i of
        Inl e \<Rightarrow> Inl e
      | Inr beams \<Rightarrow>
          (case all_initial_beams is of Inl e \<Rightarrow> Inl e | Inr rest \<Rightarrow> Inr (beams # rest)))"

definition init_state :: "'x beam list list \<Rightarrow> 'w \<Rightarrow> ('x, 'w) search_state" where
  "init_state beams w =
     \<lparr>current_beams = beams, beam_queues = map (\<lambda>_. []) beams,
      update_info = map length beams, world = w\<rparr>"

subsection \<open>filter\_beams and get\_outputs\<close>

definition stops :: "('x, 'w) search_args \<Rightarrow> 'x beam \<Rightarrow> bool" where
  "stops a b = (stop_fn a b \<or> max_length a \<le> int (beam_len b))"

definition group_done :: "('x, 'w) search_args \<Rightarrow> 'x beam list \<times> 'x beam list \<Rightarrow> bool" where
  "group_done a cq = (length (fst cq) = 0 \<or> beam_width a \<le> int (length (snd cq)))"

definition filter_beams ::
  "('x, 'w) search_args \<Rightarrow> ('x, 'w) search_state \<Rightarrow> bool \<times> ('x, 'w) search_state" where
  "filter_beams a st =
     (let queues = map2 (\<lambda>queue current. queue @ filter (stops a) current)
                     (beam_queues st) (current_beams st);
          new_beams = map (filter (\<lambda>b. \<not> stops a b)) (current_beams st)
      in (list_all (group_done a) (zip new_beams queues),
          st\<lparr>current_beams := new_beams, beam_queues := queues\<rparr>))"

definition group_output ::
  "('x, 'w) search_args \<Rightarrow> bool \<Rightarrow> 'x beam list \<Rightarrow> 'x beam list \<Rightarrow> 'x beam list" where
  "group_output a intermediate queue0 current0 =
     (let beam_queue = (if intermediate then current0 else queue0);
          current = (if intermediate then queue0 else current0);
          ranked = py_sorted_rev (score_fn a) beam_queue;
          ranked' = (if length ranked = 0 \<and> (return_incomplete a \<or> intermediate)
                     then py_sorted_rev (score_fn a) current else ranked)
      in py_slice_to (beam_width a) ranked')"

definition get_outputs ::
  "('x, 'w) search_args \<Rightarrow> bool \<Rightarrow> ('x, 'w) search_state \<Rightarrow> 'x beam list list" where
  "get_outputs a intermediate st =
     map2 (group_output a intermediate) (beam_queues st) (current_beams st)"

subsection \<open>One round\<close>

definition group_candidates ::
  "round_scores \<Rightarrow> nat \<Rightarrow> 'x beam list \<Rightarrow> ('x beam \<times> int \<times> real) list" where
  "group_candidates sc idx g =
     concat (map (\<lambda>(beam_idx, beam).
                    map (\<lambda>token_id. (beam, token_id, log_prob_at sc idx beam_idx token_id))
                      (sampled sc idx beam_idx))
               (enumerate 0 g))"

definition select_candidates ::
  "('x, 'w) search_args \<Rightarrow> ('x beam \<times> int \<times> real) list \<Rightarrow> ('x beam \<times> int \<times> real) list" where
  "select_candidates a cands =
     py_slice_to (beam_width a) (py_sorted_rev (\<lambda>(b, t, lp). log_prob b + lp) cands)"

fun materialize ::
  "('w \<Rightarrow> 'x beam \<Rightarrow> int \<Rightarrow> real \<Rightarrow> 'w \<times> 'x beam option) \<Rightarrow> 'w
     \<Rightarrow> ('x beam \<times> int \<times> real) list \<Rightarrow> 'w \<times> 'x beam list" where
  "materialize cf w [] = (w, [])"
| "materialize cf w ((b, t, lp) # cs) =
     (let r = cf w b t lp; rest = materialize cf (fst r) cs
      in (fst rest, (case snd r of None \<Rightarrow> snd rest | Some c \<Rightarrow> c # snd rest)))"

fun expand_groups ::
  "('x, 'w) search_args \<Rightarrow> round_scores \<Rightarrow> 'w \<Rightarrow> nat \<Rightarrow> 'x beam list list
     \<Rightarrow> 'w \<times> 'x beam list list" where
  "expand_groups a sc w idx [] = (w, [])"
| "expand_groups a sc w idx (g # gs) =
     (let new = materialize (candidate_fn a) w
                  (select_candidates a (group_candidates sc idx g));
          rest = expand_groups a sc (fst new) (Suc idx) gs
      in (fst rest, snd new # snd rest))"

definition round_body :: "('x, 'w) search_args \<Rightarrow> ('x, 'w) search_state \<Rightarrow> ('x, 'w) search_state" where
  "round_body a st =
     (let dec = decode_step a (world st) (update_info st) (current_beams st);
          new = expand_groups a (snd dec) (fst dec) 0 (current_beams st)
      in st\<lparr>current_beams := snd new, update_info := map length (snd new),
            world := fst new\<rparr>)"

subsection \<open>The loop and the generator\<close>

text \<open>
  The \<open>while\<close> loop may run forever, so it is a partial function. A run that ends gives
  the number of rounds (executions of the loop body) and the list of the values the
  generator yields, in order.
\<close>

partial_function (option) search_loop ::
  "('x, 'w) search_args \<Rightarrow> ('x, 'w) search_state \<Rightarrow> (nat \<times> 'x beam list list list) option" where
  "search_loop a st =
     (if fst (filter_beams a st) then Some (0, [get_outputs a False (snd (filter_beams a st))])
      else Option.bind (search_loop a (round_body a (snd (filter_beams a st))))
             (\<lambda>r. Some (Suc (fst r),
                (if yield_intermediate a
                 then [get_outputs a True (round_body a (snd (filter_beams a st)))]
                 else []) @ snd r)))"

declare search_loop.simps [code]

text \<open>
  Line 45 rebinds \<open>score_fn\<close> before any use. An invalid entry of \<open>initial\<close> raises
  before the loop.
\<close>

definition beam_search ::
  "('x, 'w) search_args \<Rightarrow> 'x initial list \<Rightarrow> 'w
     \<Rightarrow> (py_error + nat \<times> 'x beam list list list) option" where
  "beam_search a initial w =
     (let a' = a\<lparr>score_fn := log_likelihood_score (normalize_by_length a) (alpha a)\<rparr>
      in case all_initial_beams initial of
           Inl e \<Rightarrow> Some (Inl e)
         | Inr beams \<Rightarrow> map_option Inr (search_loop a' (init_state beams w)))"

text \<open>
  The state at the head of the loop after \<open>n\<close> completed rounds, when the loop gets
  that far.
\<close>

fun state_at ::
  "('x, 'w) search_args \<Rightarrow> nat \<Rightarrow> ('x, 'w) search_state \<Rightarrow> ('x, 'w) search_state option" where
  "state_at a 0 st = Some st"
| "state_at a (Suc n) st =
     (if fst (filter_beams a st) then None
      else state_at a n (round_body a (snd (filter_beams a st))))"

text \<open>
  The list that the final call of \<open>get_outputs\<close> ranks for one group: the finished
  queue, or the active beams when the queue is empty and \<open>return_incomplete\<close> is set.
\<close>

definition output_source ::
  "('x, 'w) search_args \<Rightarrow> 'x beam list \<Rightarrow> 'x beam list \<Rightarrow> 'x beam list" where
  "output_source a queue current =
     (if queue = [] \<and> return_incomplete a then current else queue)"

text \<open>
  The contract of the candidate function in the spec: a candidate that is accepted is
  the parent plus one appended token, so it is longer than the parent.
\<close>

definition grows :: "('x, 'w) search_args \<Rightarrow> bool" where
  "grows a \<longleftrightarrow> (\<forall>w b t lp w' c. candidate_fn a w b t lp = (w', Some c) \<longrightarrow> beam_len b < beam_len c)"

text \<open>Every active beam is at most \<open>m\<close> tokens short of the length cap.\<close>

definition all_len_ge :: "('x, 'w) search_args \<Rightarrow> nat \<Rightarrow> ('x, 'w) search_state \<Rightarrow> bool" where
  "all_len_ge a m st \<longleftrightarrow>
     (\<forall>g \<in> set (current_beams st). \<forall>b \<in> set g. max_length a - int m \<le> int (beam_len b))"

text \<open>
  What the calls of \<open>candidate_fn\<close> on lines 193 to 204 return, in order, for a list of
  selected candidates; and those results for group \<open>g\<close> in the round that starts in
  state \<open>st\<close>: the outside state at the first of these calls is the one the decode step
  and the candidate calls of the groups before \<open>g\<close> have left.
\<close>

fun candidate_results ::
  "('w \<Rightarrow> 'x beam \<Rightarrow> int \<Rightarrow> real \<Rightarrow> 'w \<times> 'x beam option) \<Rightarrow> 'w
     \<Rightarrow> ('x beam \<times> int \<times> real) list \<Rightarrow> 'x beam option list" where
  "candidate_results cf w [] = []"
| "candidate_results cf w ((b, t, lp) # cs) =
     snd (cf w b t lp) # candidate_results cf (fst (cf w b t lp)) cs"

definition round_candidate_results ::
  "('x, 'w) search_args \<Rightarrow> ('x, 'w) search_state \<Rightarrow> nat \<Rightarrow> 'x beam option list" where
  "round_candidate_results a st g =
     (let dec = decode_step a (world st) (update_info st) (current_beams st);
          w = fst (expand_groups a (snd dec) (fst dec) 0 (take g (current_beams st)))
      in candidate_results (candidate_fn a) w
           (select_candidates a (group_candidates (snd dec) g (current_beams st ! g))))"

subsection \<open>Runs with callables that need not be deterministic\<close>

text \<open>
  For the question whether two runs agree, the callables are relations.
  \<open>decode_rel c w ui cb (w', sc)\<close> says that the decode step of lines 111 to 189 (the
  update and select functions, \<open>decode_fn\<close>, the logit functions, \<open>log_softmax\<close> and
  \<open>sample_fn\<close>), called in the outside state \<open>w\<close>, may leave the outside state \<open>w'\<close>
  and return \<open>sc\<close>; \<open>candidate_rel\<close> and \<open>stop_rel\<close> say the same of one call of
  \<open>candidate_fn\<close> and of \<open>stop_fn\<close>. The other arguments (\<open>max_length\<close>,
  \<open>beam_width\<close>, the flags and the score) are read from a record of arguments \<open>a\<close>,
  whose three function fields are not read here.
\<close>

record ('x, 'w) callables =
  decode_rel :: "'w \<Rightarrow> nat list \<Rightarrow> 'x beam list list \<Rightarrow> 'w \<times> round_scores \<Rightarrow> bool"
  candidate_rel :: "'w \<Rightarrow> 'x beam \<Rightarrow> int \<Rightarrow> real \<Rightarrow> 'w \<times> 'x beam option \<Rightarrow> bool"
  stop_rel :: "'w \<Rightarrow> 'x beam \<Rightarrow> 'w \<times> bool \<Rightarrow> bool"

text \<open>
  Lines 71 to 75 for one group: \<open>stop_fn\<close> is called on every beam, in order, before the
  length is compared.
\<close>

inductive partition_run ::
  "('x, 'w) callables \<Rightarrow> ('x, 'w) search_args \<Rightarrow> 'w \<Rightarrow> 'x beam list
     \<Rightarrow> 'w \<times> 'x beam list \<times> 'x beam list \<Rightarrow> bool"
  for c a where
    partition_done: "partition_run c a w [] (w, [], [])"
  | partition_stop:
      "stop_rel c w b (w1, s) \<Longrightarrow> s \<or> max_length a \<le> int (beam_len b) \<Longrightarrow>
       partition_run c a w1 bs (w2, new_beams, stopped) \<Longrightarrow>
       partition_run c a w (b # bs) (w2, new_beams, b # stopped)"
  | partition_keep:
      "stop_rel c w b (w1, s) \<Longrightarrow> \<not> (s \<or> max_length a \<le> int (beam_len b)) \<Longrightarrow>
       partition_run c a w1 bs (w2, new_beams, stopped) \<Longrightarrow>
       partition_run c a w (b # bs) (w2, b # new_beams, stopped)"

text \<open>\<open>filter_beams\<close>: the groups in order, then the test of lines 78 to 81.\<close>

inductive filter_groups_run ::
  "('x, 'w) callables \<Rightarrow> ('x, 'w) search_args \<Rightarrow> 'w \<Rightarrow> 'x beam list list \<Rightarrow> 'x beam list list
     \<Rightarrow> 'w \<times> 'x beam list list \<times> 'x beam list list \<Rightarrow> bool"
  for c a where
    filter_groups_done: "filter_groups_run c a w [] [] (w, [], [])"
  | filter_groups_step:
      "partition_run c a w current (w1, new_beams, stopped) \<Longrightarrow>
       filter_groups_run c a w1 currents queues (w2, news, queues') \<Longrightarrow>
       filter_groups_run c a w (current # currents) (queue # queues)
         (w2, new_beams # news, (queue @ stopped) # queues')"

inductive filter_run ::
  "('x, 'w) callables \<Rightarrow> ('x, 'w) search_args \<Rightarrow> ('x, 'w) search_state
     \<Rightarrow> bool \<times> ('x, 'w) search_state \<Rightarrow> bool"
  for c a where
    filter_runI:
      "filter_groups_run c a (world st) (current_beams st) (beam_queues st) (w, news, queues) \<Longrightarrow>
       filter_run c a st
         (list_all (group_done a) (zip news queues),
          st\<lparr>current_beams := news, beam_queues := queues, world := w\<rparr>)"

text \<open>Lines 193 to 204: the calls of \<open>candidate_fn\<close> on the selected candidates.\<close>

inductive materialize_run ::
  "('x, 'w) callables \<Rightarrow> 'w \<Rightarrow> ('x beam \<times> int \<times> real) list \<Rightarrow> 'w \<times> 'x beam list \<Rightarrow> bool"
  for c where
    materialize_done: "materialize_run c w [] (w, [])"
  | materialize_reject:
      "candidate_rel c w b t lp (w1, None) \<Longrightarrow> materialize_run c w1 cs (w2, rest) \<Longrightarrow>
       materialize_run c w ((b, t, lp) # cs) (w2, rest)"
  | materialize_accept:
      "candidate_rel c w b t lp (w1, Some candidate) \<Longrightarrow> materialize_run c w1 cs (w2, rest) \<Longrightarrow>
       materialize_run c w ((b, t, lp) # cs) (w2, candidate # rest)"

inductive expand_groups_run ::
  "('x, 'w) callables \<Rightarrow> ('x, 'w) search_args \<Rightarrow> round_scores \<Rightarrow> 'w \<Rightarrow> nat
     \<Rightarrow> 'x beam list list \<Rightarrow> 'w \<times> 'x beam list list \<Rightarrow> bool"
  for c a sc where
    expand_groups_done: "expand_groups_run c a sc w idx [] (w, [])"
  | expand_groups_step:
      "materialize_run c w (select_candidates a (group_candidates sc idx g)) (w1, new) \<Longrightarrow>
       expand_groups_run c a sc w1 (Suc idx) gs (w2, rest) \<Longrightarrow>
       expand_groups_run c a sc w idx (g # gs) (w2, new # rest)"

text \<open>One execution of the loop body.\<close>

inductive round_run ::
  "('x, 'w) callables \<Rightarrow> ('x, 'w) search_args \<Rightarrow> ('x, 'w) search_state
     \<Rightarrow> ('x, 'w) search_state \<Rightarrow> bool"
  for c a where
    round_runI:
      "decode_rel c (world st) (update_info st) (current_beams st) (w1, sc) \<Longrightarrow>
       expand_groups_run c a sc w1 0 (current_beams st) (w2, new) \<Longrightarrow>
       round_run c a st
         (st\<lparr>current_beams := new, update_info := map length new, world := w2\<rparr>)"

text \<open>
  \<open>search_yields c a st k outs\<close>: a run from \<open>st\<close> can execute \<open>k\<close> rounds and yields
  \<open>outs\<close> in them. \<open>search_ends c a st k outs\<close>: a run from \<open>st\<close> can end after \<open>k\<close>
  rounds, having yielded \<open>outs\<close>, the final output included.
\<close>

definition intermediate_yield ::
  "('x, 'w) search_args \<Rightarrow> ('x, 'w) search_state \<Rightarrow> 'x beam list list list" where
  "intermediate_yield a st = (if yield_intermediate a then [get_outputs a True st] else [])"

inductive search_yields ::
  "('x, 'w) callables \<Rightarrow> ('x, 'w) search_args \<Rightarrow> ('x, 'w) search_state \<Rightarrow> nat
     \<Rightarrow> 'x beam list list list \<Rightarrow> bool"
  for c a where
    yields_none: "search_yields c a st 0 []"
  | yields_round:
      "filter_run c a st (False, st1) \<Longrightarrow> round_run c a st1 st2 \<Longrightarrow>
       search_yields c a st2 k outs \<Longrightarrow>
       search_yields c a st (Suc k) (intermediate_yield a st2 @ outs)"

inductive search_ends ::
  "('x, 'w) callables \<Rightarrow> ('x, 'w) search_args \<Rightarrow> ('x, 'w) search_state \<Rightarrow> nat
     \<Rightarrow> 'x beam list list list \<Rightarrow> bool"
  for c a where
    ends_now:
      "filter_run c a st (True, st1) \<Longrightarrow> search_ends c a st 0 [get_outputs a False st1]"
  | ends_round:
      "filter_run c a st (False, st1) \<Longrightarrow> round_run c a st1 st2 \<Longrightarrow>
       search_ends c a st2 k outs \<Longrightarrow>
       search_ends c a st (Suc k) (intermediate_yield a st2 @ outs)"

text \<open>The same for a call of \<open>beam_search\<close>, with the score that line 45 binds.\<close>

definition beam_search_yields ::
  "('x, 'w) callables \<Rightarrow> ('x, 'w) search_args \<Rightarrow> 'x initial list \<Rightarrow> 'w \<Rightarrow> nat
     \<Rightarrow> 'x beam list list list \<Rightarrow> bool" where
  "beam_search_yields c a initial w k outs \<longleftrightarrow>
     (\<exists>beams. all_initial_beams initial = Inr beams
        \<and> search_yields c (a\<lparr>score_fn := log_likelihood_score (normalize_by_length a) (alpha a)\<rparr>)
             (init_state beams w) k outs)"

definition beam_search_ends ::
  "('x, 'w) callables \<Rightarrow> ('x, 'w) search_args \<Rightarrow> 'x initial list \<Rightarrow> 'w \<Rightarrow> nat
     \<Rightarrow> 'x beam list list list \<Rightarrow> bool" where
  "beam_search_ends c a initial w k outs \<longleftrightarrow>
     (\<exists>beams. all_initial_beams initial = Inr beams
        \<and> search_ends c (a\<lparr>score_fn := log_likelihood_score (normalize_by_length a) (alpha a)\<rparr>)
             (init_state beams w) k outs)"

text \<open>
  A callable is deterministic when the outside state and its arguments determine its
  result and the outside state it leaves.
\<close>

definition deterministic_decode :: "('x, 'w) callables \<Rightarrow> bool" where
  "deterministic_decode c \<longleftrightarrow>
     (\<forall>w ui cb r1 r2. decode_rel c w ui cb r1 \<longrightarrow> decode_rel c w ui cb r2 \<longrightarrow> r1 = r2)"

definition deterministic_candidate :: "('x, 'w) callables \<Rightarrow> bool" where
  "deterministic_candidate c \<longleftrightarrow>
     (\<forall>w b t lp r1 r2. candidate_rel c w b t lp r1 \<longrightarrow> candidate_rel c w b t lp r2 \<longrightarrow> r1 = r2)"

definition deterministic_stop :: "('x, 'w) callables \<Rightarrow> bool" where
  "deterministic_stop c \<longleftrightarrow>
     (\<forall>w b r1 r2. stop_rel c w b r1 \<longrightarrow> stop_rel c w b r2 \<longrightarrow> r1 = r2)"

text \<open>The callables of the functional model, as relations.\<close>

definition callables_of :: "('x, 'w) search_args \<Rightarrow> ('x, 'w) callables" where
  "callables_of a =
     \<lparr>decode_rel = (\<lambda>w ui cb r. r = decode_step a w ui cb),
      candidate_rel = (\<lambda>w b t lp r. r = candidate_fn a w b t lp),
      stop_rel = (\<lambda>w b r. r = (w, stop_fn a b))\<rparr>"

section \<open>Example inputs\<close>

text \<open>A candidate function that appends the token, and one that rejects every candidate.\<close>

definition append_candidate ::
  "unit \<Rightarrow> unit beam \<Rightarrow> int \<Rightarrow> real \<Rightarrow> unit \<times> unit beam option" where
  "append_candidate w b t lp =
     (w, Some \<lparr>token_ids = token_ids b @ [t], log_probs = log_probs b @ [lp], extra = extra b\<rparr>)"

definition reject_candidate ::
  "unit \<Rightarrow> unit beam \<Rightarrow> int \<Rightarrow> real \<Rightarrow> unit \<times> unit beam option" where
  "reject_candidate w b t lp = (w, None)"

text \<open>
  A decode step for two groups. Group 0 samples the tokens 5 and 1 in the first round
  and 5 and 6 afterwards; group 1 always samples the token 1. Token 5 has
  log-probability \<open>-1\<close>, every other token \<open>-2\<close>.
\<close>

definition decodeA :: "unit \<Rightarrow> nat list \<Rightarrow> unit beam list list \<Rightarrow> unit \<times> round_scores" where
  "decodeA w ui cb =
     (w, \<lparr>sampled = (\<lambda>idx bidx.
             if idx = 0
             then (if list_all (list_all (\<lambda>b. beam_len b = 1)) cb then [5, 1] else [5, 6])
             else [1]),
          log_prob_at = (\<lambda>idx bidx t. if t = 5 then - 1 else - 2)\<rparr>)"

text \<open>Beam width 2, length cap 5, a beam stops when its last token is at least 5.\<close>

definition argsA :: "(unit, unit) search_args" where
  "argsA = \<lparr>decode_step = decodeA, max_length = 5,
     stop_fn = (\<lambda>b. token_ids b \<noteq> [] \<and> 5 \<le> last (token_ids b)),
     normalize_by_length = False, alpha = 1, beam_width = 2,
     candidate_fn = append_candidate, score_fn = (\<lambda>b. - log_prob b),
     return_incomplete = False, yield_intermediate = True\<rparr>"

definition tok_beam :: "int list \<Rightarrow> real list \<Rightarrow> unit beam" where
  "tok_beam ts lps = \<lparr>token_ids = ts, log_probs = lps, extra = None\<rparr>"

definition stateA0 :: "(unit, unit) search_state" where
  "stateA0 = init_state [[tok_beam [1] [0]], [tok_beam [2] [0]]] ()"

text \<open>The state of the search of \<open>argsA\<close> at the head of the loop after three rounds.\<close>

definition stateA3 :: "(unit, unit) search_state" where
  "stateA3 =
     \<lparr>current_beams = [[], [tok_beam [2, 1, 1, 1] [0, - 2, - 2, - 2]]],
      beam_queues = [[tok_beam [1, 5] [0, - 1], tok_beam [1, 1, 5] [0, - 2, - 1],
                      tok_beam [1, 1, 6] [0, - 2, - 2]], []],
      update_info = [0, 1], world = ()\<rparr>"



definition argsR :: "(unit, unit) search_args" where
  "argsR = argsA\<lparr>candidate_fn := reject_candidate, return_incomplete := True,
                  yield_intermediate := False\<rparr>"

definition argsRF :: "(unit, unit) search_args" where
  "argsRF = argsR\<lparr>return_incomplete := False\<rparr>"

definition args0 :: "(unit, unit) search_args" where
  "args0 = argsA\<lparr>beam_width := 0\<rparr>"


text \<open>
  The search of \<open>argsA\<close> with length cap 2 and a candidate function that returns the
  parent beam unchanged, and the states that search stays in.
\<close>

definition argsS :: "(unit, unit) search_args" where
  "argsS = argsA\<lparr>candidate_fn := (\<lambda>w b t lp. (w, Some b)), max_length := 2\<rparr>"

definition stuck :: "(unit, unit) search_state \<Rightarrow> bool" where
  "stuck st \<longleftrightarrow> beam_queues st = [[]] \<and>
     (current_beams st = [[tok_beam [1] [0]]]
      \<or> current_beams st = [[tok_beam [1] [0], tok_beam [1] [0]]])"

text \<open>
  Beam width 1 and a stop function that may answer either way on every call; the decode
  step and the candidate function are those of \<open>argsA\<close>.
\<close>

definition args1 :: "(unit, unit) search_args" where
  "args1 = argsA\<lparr>beam_width := 1\<rparr>"

definition calls_random_stop :: "(unit, unit) callables" where
  "calls_random_stop = (callables_of args1)\<lparr>stop_rel := (\<lambda>w b r. fst r = w)\<rparr>"

definition example_processor :: processor where
  "example_processor =
     \<lparr>cfg_inference = [''tokenizer'' \<mapsto> VStr ''bpe''], max_length_p = 512,
      sched_affinity = 8, sys_maxsize = 9223372036854775807\<rparr>"

definition example_index :: "string continuation_index" where
  "example_index =
     \<lparr>ci_get = (\<lambda>p. if p = [] then ([0, 1], None)
                     else if p = [99] then ([1], Some ''c'')
                     else ([], None)),
      continuation_at = (\<lambda>i. if i = 0 then Some [99] else if i = 1 then Some [97] else None)\<rparr>"

definition example_store :: "string store" where
  "example_store = fst (init_constraint [] example_index None)"

section \<open>Properties of ContinuationConstraint\<close>

lemma next_c_length: "next_c h c i = Inr h' \<Longrightarrow> length h' = length h"
  by (auto simp: next_c_def Let_def split: option.splits prod.splits)

lemma next_c_other: "next_c h c i = Inr h' \<Longrightarrow> a \<noteq> c \<Longrightarrow> h' ! a = h ! a"
  by (auto simp: next_c_def Let_def split: option.splits prod.splits)

lemma nexts_other: "a \<noteq> c \<Longrightarrow> nexts h c is ! a = h ! a"
proof (induction "is" arbitrary: h)
  case Nil
  then show ?case by simp
next
  case (Cons i "is")
  show ?case
  proof (cases "next_c h c i")
    case (Inl e)
    then show ?thesis by simp
  next
    case (Inr h')
    with Cons next_c_other [OF Inr] show ?thesis by simp
  qed
qed

lemma clone_fresh: "clone h a = (h', c) \<Longrightarrow> c = length h \<and> (\<forall>b < length h. h' ! b = h ! b)"
  by (auto simp: clone_def init_constraint_def Let_def nth_append split: prod.splits)

lemma get_cong: "h' ! a = h ! a \<Longrightarrow> get h' a = get h a"
  by (simp add: get_def is_match_def)

text \<open>
  C8. Cloning a constraint that lives in the store and then applying any sequence of
  \<open>next\<close> calls to the clone leaves the result of \<open>get\<close> on the original unchanged; the
  clone is a different object, and right after cloning it holds the original's prefix.
\<close>

theorem clone_independent:
  assumes "a < length h" and "clone h a = (h', c)"
  shows "get (nexts h' c is) a = get h a \<and> c \<noteq> a \<and> prefix (h' ! c) = prefix (h ! a)"
proof -
  from clone_fresh [OF assms(2)] assms(1)
  have c: "c = length h" and same: "h' ! a = h ! a" by auto
  from c assms(1) have ne: "a \<noteq> c" by simp
  have "nexts h' c is ! a = h ! a"
    using nexts_other [OF ne, of h' "is"] same by simp
  then have "get (nexts h' c is) a = get h a" by (rule get_cong)
  moreover have "prefix (h' ! c) = prefix (h ! a)"
    using assms(2) by (auto simp: clone_def init_constraint_def Let_def split: prod.splits)
  ultimately show ?thesis using ne by simp
qed

section \<open>Properties of \_get\_loader\<close>

lemma get_loader_cfg:
  assumes "get_loader self bs bmt sort_flag nt kwargs = Inr cfg"
  shows "cfg ''prefetch_factor'' =
           (case kwargs ''prefetch_factor'' of
              None \<Rightarrow> Some (VInt (sys_maxsize self))
            | Some v \<Rightarrow> Some v)"
  using assms
  by (auto simp: get_loader_def Let_def builtin_sorted_truthy_def map_add_def
           split: option.splits sum.splits if_splits prod.splits)

text \<open>
  C10, as amended. Whenever \<open>_get_loader\<close> gets as far as building the configuration and
  the extra keyword arguments do not themselves carry a \<open>prefetch_factor\<close>, the entry
  is \<open>sys.maxsize\<close>, for \<open>sort\<close> true and for \<open>sort\<close> false alike.
\<close>

theorem get_loader_prefetch_maxsize:
  assumes "get_loader self bs bmt sort_flag nt kwargs = Inr cfg"
    and "kwargs ''prefetch_factor'' = None"
  shows "cfg ''prefetch_factor'' = Some (VInt (sys_maxsize self))"
  using get_loader_cfg [OF assms(1)] assms(2) by simp

lemma example_loader_runs:
  "\<exists>cfg. get_loader example_processor 16 None False None Map.empty = Inr cfg"
  by (simp add: get_loader_def example_processor_def Let_def)

theorem get_loader_prefetch_maxsize_witness:
  "\<exists>cfg. get_loader example_processor 16 None False None Map.empty = Inr cfg
         \<and> cfg ''prefetch_factor'' = Some (VInt 9223372036854775807)"
proof -
  from example_loader_runs obtain cfg
    where r: "get_loader example_processor 16 None False None Map.empty = Inr cfg" by blast
  from get_loader_prefetch_maxsize [OF r]
  have "cfg ''prefetch_factor'' = Some (VInt (sys_maxsize example_processor))" by simp
  with r show ?thesis by (simp add: example_processor_def)
qed

text \<open>
  C10 as stated fails: a caller's \<open>prefetch_factor=1\<close> among the extra keyword arguments
  replaces the entry through \<open>inference_cfg.update(kwargs)\<close>.
\<close>

theorem get_loader_prefetch_counterexample:
  "\<exists>cfg. get_loader example_processor 16 None True None [''prefetch_factor'' \<mapsto> VInt 1] = Inr cfg
         \<and> cfg ''prefetch_factor'' = Some (VInt 1)
         \<and> cfg ''prefetch_factor'' \<noteq> Some (VInt (sys_maxsize example_processor))"
  by (simp add: get_loader_def example_processor_def Let_def map_add_def)

theorem clone_independent_witness:
  "get (nexts (fst (clone example_store 0)) (snd (clone example_store 0)) [0, 1, 7]) 0
     = get example_store 0
   \<and> get (nexts (fst (clone example_store 0)) (snd (clone example_store 0)) [0]) 1 = ([1], True)
   \<and> get example_store 0 = ([0, 1], False)"
proof -
  have len: "(0::nat) < length example_store"
    by (simp add: example_store_def init_constraint_def Let_def example_index_def)
  have cl: "clone example_store 0 = (fst (clone example_store 0), snd (clone example_store 0))"
    by simp
  from clone_independent [OF len cl, of "[0, 1, 7]"]
  have "get (nexts (fst (clone example_store 0)) (snd (clone example_store 0)) [0, 1, 7]) 0
     = get example_store 0" by simp
  moreover have "get (nexts (fst (clone example_store 0)) (snd (clone example_store 0)) [0]) 1
     = ([1], True)"
    by (simp add: example_store_def init_constraint_def Let_def example_index_def clone_def
        next_c_def get_def is_match_def)
  moreover have "get example_store 0 = ([0, 1], False)"
    by (simp add: example_store_def init_constraint_def Let_def example_index_def
        get_def is_match_def)
  ultimately show ?thesis by simp
qed

section \<open>Sorting, slicing and the width of a group\<close>



lemma py_sorted_rev_set [simp]: "set (py_sorted_rev f xs) = set xs"
  by (simp add: py_sorted_rev_def)

lemma py_sorted_rev_length [simp]: "length (py_sorted_rev f xs) = length xs"
  by (simp add: py_sorted_rev_def)

lemma py_sorted_rev_Nil_iff [simp]: "py_sorted_rev f xs = [] \<longleftrightarrow> xs = []"
  using py_sorted_rev_length [of f xs] by (metis length_0_conv)


lemma py_slice_to_length: "0 \<le> k \<Longrightarrow> int (length (py_slice_to k xs)) \<le> k"
  by (simp add: py_slice_to_def)

lemma py_slice_to_set: "set (py_slice_to k xs) \<subseteq> set xs"
  by (auto simp: py_slice_to_def dest: in_set_takeD)


lemma group_output_final:
  "group_output a False queue current =
     py_slice_to (beam_width a) (py_sorted_rev (score_fn a) (output_source a queue current))"
  by (cases "queue = []") (simp_all add: group_output_def output_source_def Let_def)

lemma get_outputs_nth:
  "idx < length (beam_queues st) \<Longrightarrow> idx < length (current_beams st) \<Longrightarrow>
   get_outputs a im st ! idx = group_output a im (beam_queues st ! idx) (current_beams st ! idx)"
  by (simp add: get_outputs_def)


lemma materialize_length: "length (snd (materialize cf w cs)) \<le> length cs"
  by (induction cf w cs rule: materialize.induct) (auto simp: Let_def split: option.splits)

lemma expand_groups_width:
  "0 \<le> beam_width a \<Longrightarrow> g \<in> set (snd (expand_groups a sc w idx gs)) \<Longrightarrow>
   int (length g) \<le> beam_width a"
proof (induction a sc w idx gs rule: expand_groups.induct)
  case (1 a sc w idx)
  then show ?case by simp
next
  case (2 a sc w idx g' gs)
  have "int (length (snd (materialize (candidate_fn a) w
           (select_candidates a (group_candidates sc idx g'))))) \<le> beam_width a"
    using materialize_length [of "candidate_fn a" w "select_candidates a (group_candidates sc idx g')"]
      py_slice_to_length [OF 2(2), of "py_sorted_rev (\<lambda>(b, t, lp). log_prob b + lp)
         (group_candidates sc idx g')"]
    unfolding select_candidates_def by linarith
  with 2 show ?case by (auto simp: Let_def)
qed

lemma filter_beams_False_width: "\<not> fst (filter_beams a st) \<Longrightarrow> 0 < beam_width a"
  by (auto simp: filter_beams_def Let_def list_all_iff group_done_def)

lemma round_body_width:
  "0 \<le> beam_width a \<Longrightarrow> g \<in> set (current_beams (round_body a st)) \<Longrightarrow> int (length g) \<le> beam_width a"
  by (auto simp: round_body_def Let_def dest: expand_groups_width)

lemma state_at_width:
  "state_at a (Suc n) st0 = Some st \<Longrightarrow> g \<in> set (current_beams st) \<Longrightarrow> int (length g) \<le> beam_width a"
proof (induction n arbitrary: st0)
  case 0
  then show ?case
    using round_body_width [of a g "snd (filter_beams a st0)"] filter_beams_False_width [of a st0]
    by (auto split: if_splits)
next
  case (Suc n)
  from Suc.prems(1) have "state_at a (Suc n) (round_body a (snd (filter_beams a st0))) = Some st"
    by (simp split: if_splits)
  from Suc.IH [OF this Suc.prems(2)] show ?case .
qed

lemma get_outputs_width:
  "0 \<le> beam_width a \<Longrightarrow> out \<in> set (get_outputs a im st') \<Longrightarrow> int (length out) \<le> beam_width a"
  by (auto simp: get_outputs_def group_output_def Let_def py_slice_to_length dest!: set_zip_leftD
      simp: in_set_zip)

text \<open>
  C1, as amended. After the selection of every round each group has at most
  \<open>beam_width\<close> active beams, and for a non-negative \<open>beam_width\<close> each list of
  each yielded output has at most \<open>beam_width\<close> beams. Nothing bounds the finished
  queue itself.
\<close>

theorem width_bound:
  "(state_at a (Suc n) st0 = Some st \<longrightarrow> (\<forall>g \<in> set (current_beams st). int (length g) \<le> beam_width a))
   \<and> (0 \<le> beam_width a \<longrightarrow> (\<forall>out \<in> set (get_outputs a im st'). int (length out) \<le> beam_width a))"
  using state_at_width get_outputs_width by blast


section \<open>The values the generator yields\<close>

lemma search_loop_length:
  "search_loop a st = Some r \<Longrightarrow>
   length (snd r) = (if yield_intermediate a then Suc (fst r) else 1)"
proof (induction rule: search_loop.raw_induct [rotated 1, consumes 1])
  case (1 loop a st r)
  show ?case
  proof (cases "fst (filter_beams a st)")
    case True
    with 1(2) show ?thesis by auto
  next
    case False
    with 1(2) obtain r' where r': "loop a (round_body a (snd (filter_beams a st))) = Some r'"
      and r: "r = (Suc (fst r'), (if yield_intermediate a
                 then [get_outputs a True (round_body a (snd (filter_beams a st)))]
                 else []) @ snd r')"
      by (auto simp: bind_eq_Some_conv)
    from 1(1) [OF r'] r show ?thesis by simp
  qed
qed

lemma filter_beams_zero: "beam_width a \<le> 0 \<Longrightarrow> fst (filter_beams a st)"
  by (auto simp: filter_beams_def Let_def list_all_iff group_done_def)

lemma get_outputs_init_zero:
  "beam_width a = 0 \<Longrightarrow>
   get_outputs a im st = map (\<lambda>_. []) (zip (beam_queues st) (current_beams st))"
  by (auto simp: get_outputs_def group_output_def Let_def py_slice_to_def)

lemma all_initial_beams_length:
  "all_initial_beams is = Inr beams \<Longrightarrow> length beams = length is"
  by (induction "is" arbitrary: beams) (auto split: sum.splits)

section \<open>Termination\<close>

lemma search_loop_done:
  "fst (filter_beams a st) \<Longrightarrow>
   search_loop a st = Some (0, [get_outputs a False (snd (filter_beams a st))])"
  by (subst search_loop.simps) simp

lemma search_loop_round:
  "\<not> fst (filter_beams a st) \<Longrightarrow>
   search_loop a (round_body a (snd (filter_beams a st))) = Some r \<Longrightarrow>
   search_loop a st = Some (Suc (fst r),
      (if yield_intermediate a
       then [get_outputs a True (round_body a (snd (filter_beams a st)))] else []) @ snd r)"
  by (subst search_loop.simps) simp

lemma materialize_parents:
  "c \<in> set (snd (materialize cf w cs)) \<Longrightarrow>
   \<exists>w' w'' b t lp. (b, t, lp) \<in> set cs \<and> cf w' b t lp = (w'', Some c)"
proof (induction cf w cs rule: materialize.induct)
  case (1 cf w)
  then show ?case by simp
next
  case (2 cf w b t lp cs)
  show ?case
  proof (cases "snd (cf w b t lp) = Some c")
    case True
    then have "cf w b t lp = (fst (cf w b t lp), Some c)" by (metis prod.collapse)
    then show ?thesis by (metis list.set_intros(1))
  next
    case False
    with 2(2) have "c \<in> set (snd (materialize cf (fst (cf w b t lp)) cs))"
      by (auto simp: Let_def split: option.splits)
    from 2(1) [OF refl this] show ?thesis by (metis list.set_intros(2))
  qed
qed

lemma group_candidates_parents: "(b, t, lp) \<in> set (group_candidates sc idx g) \<Longrightarrow> b \<in> set g"
  by (auto simp: group_candidates_def enumerate_eq_zip dest: set_zip_rightD)

lemma select_candidates_subset: "set (select_candidates a cs) \<subseteq> set cs"
  using py_slice_to_set [of "beam_width a" "py_sorted_rev (\<lambda>(b, t, lp). log_prob b + lp) cs"]
  by (simp add: select_candidates_def)

lemma expand_groups_parents:
  "g' \<in> set (snd (expand_groups a sc w idx gs)) \<Longrightarrow> c \<in> set g' \<Longrightarrow>
   \<exists>w' w'' b t lp g. g \<in> set gs \<and> b \<in> set g \<and> candidate_fn a w' b t lp = (w'', Some c)"
proof (induction a sc w idx gs rule: expand_groups.induct)
  case (1 a sc w idx)
  then show ?case by simp
next
  case (2 a sc w idx g gs)
  let ?new = "materialize (candidate_fn a) w (select_candidates a (group_candidates sc idx g))"
  from 2(2) consider "g' = snd ?new" | "g' \<in> set (snd (expand_groups a sc (fst ?new) (Suc idx) gs))"
    by (auto simp: Let_def)
  then show ?case
  proof cases
    case 1
    with 2(3) materialize_parents [of c "candidate_fn a" w]
    obtain w' w'' b t lp where
      "(b, t, lp) \<in> set (select_candidates a (group_candidates sc idx g))"
      "candidate_fn a w' b t lp = (w'', Some c)" by blast
    moreover from this(1) have "b \<in> set g"
      using select_candidates_subset group_candidates_parents by blast
    ultimately show ?thesis by (metis list.set_intros(1))
  next
    case 2
    from "2.IH" [OF refl 2 "2.prems"(2)] show ?thesis by (metis list.set_intros(2))
  qed
qed

lemma filter_beams_current:
  "g \<in> set (current_beams (snd (filter_beams a st))) \<Longrightarrow> b \<in> set g \<Longrightarrow>
   \<not> stops a b \<and> (\<exists>g0 \<in> set (current_beams st). b \<in> set g0)"
  by (auto simp: filter_beams_def Let_def)

lemma filter_beams_False_active:
  "\<not> fst (filter_beams a st) \<Longrightarrow>
   \<exists>g \<in> set (current_beams (snd (filter_beams a st))). g \<noteq> []"
  by (auto simp: filter_beams_def Let_def list_all_iff group_done_def dest!: set_zip_leftD)

lemma round_body_current:
  "current_beams (round_body a st) =
     snd (expand_groups a (snd (decode_step a (world st) (update_info st) (current_beams st)))
            (fst (decode_step a (world st) (update_info st) (current_beams st))) 0
            (current_beams st))"
  by (simp add: round_body_def Let_def)

lemma round_all_len_ge:
  assumes "grows a" and "all_len_ge a (Suc m) st"
  shows "all_len_ge a m (round_body a (snd (filter_beams a st)))"
  unfolding all_len_ge_def
proof (intro ballI)
  fix g c
  assume g: "g \<in> set (current_beams (round_body a (snd (filter_beams a st))))" and c: "c \<in> set g"
  from g c obtain w' w'' b t lp g1 where
    g1: "g1 \<in> set (current_beams (snd (filter_beams a st)))" and b: "b \<in> set g1"
    and cf: "candidate_fn a w' b t lp = (w'', Some c)"
    unfolding round_body_current using expand_groups_parents by meson
  from filter_beams_current [OF g1 b] obtain g0 where
    "g0 \<in> set (current_beams st)" "b \<in> set g0" by blast
  with assms(2) have "max_length a - int (Suc m) \<le> int (beam_len b)"
    by (auto simp: all_len_ge_def)
  moreover from assms(1) cf have "beam_len b < beam_len c" by (auto simp: grows_def)
  ultimately show "max_length a - int m \<le> int (beam_len c)" by simp
qed

lemma search_loop_terminates:
  "grows a \<Longrightarrow> all_len_ge a m st \<Longrightarrow> \<exists>n outs. search_loop a st = Some (n, outs) \<and> n \<le> m"
proof (induction m arbitrary: st)
  case 0
  have "fst (filter_beams a st)"
  proof (rule ccontr)
    assume "\<not> fst (filter_beams a st)"
    from filter_beams_False_active [OF this] obtain g b where
      "g \<in> set (current_beams (snd (filter_beams a st)))" "b \<in> set g"
      by (metis last_in_set)
    from filter_beams_current [OF this] 0(2) show False
      by (auto simp: all_len_ge_def stops_def)
  qed
  from search_loop_done [OF this] show ?case by simp
next
  case (Suc m)
  show ?case
  proof (cases "fst (filter_beams a st)")
    case True
    from search_loop_done [OF this] show ?thesis by simp
  next
    case False
    from Suc.IH [OF Suc.prems(1) round_all_len_ge [OF Suc.prems]]
    obtain n outs where
      r: "search_loop a (round_body a (snd (filter_beams a st))) = Some (n, outs)" and "n \<le> m"
      by blast
    with search_loop_round [OF False r] show ?thesis by simp
  qed
qed

lemma all_len_ge_max: "all_len_ge a (nat (max_length a)) st"
  by (auto simp: all_len_ge_def)

text \<open>
  C3, as amended. When the candidate function keeps its contract (an accepted candidate is longer
  than its parent), every call returns, and the loop body runs at most \<open>max_length\<close>
  times (no time for a \<open>max_length\<close> below zero): a beam that has reached
  \<open>max_length\<close> tokens is moved to the finished queue by \<open>filter_beams\<close> whatever
  \<open>stop_fn\<close> says.
\<close>

theorem beam_search_terminates:
  assumes "grows a"
  shows "\<exists>r. beam_search a initial w = Some r
           \<and> (\<forall>n outs. r = Inr (n, outs) \<longrightarrow> n \<le> nat (max_length a))"
proof (cases "all_initial_beams initial")
  case (Inl e)
  then show ?thesis by (simp add: beam_search_def)
next
  case (Inr beams)
  let ?a = "a\<lparr>score_fn := log_likelihood_score (normalize_by_length a) (alpha a)\<rparr>"
  have "grows ?a" using assms by (simp add: grows_def)
  from search_loop_terminates [OF this all_len_ge_max, of "init_state beams w"]
  obtain n outs where "search_loop ?a (init_state beams w) = Some (n, outs)"
    and "n \<le> nat (max_length a)" by auto
  with Inr show ?thesis by (simp add: beam_search_def Let_def)
qed


section \<open>Claims about the generator\<close>

lemma beam_search_Inr:
  assumes "beam_search a initial w = Some (Inr r)"
  shows "\<exists>beams. all_initial_beams initial = Inr beams
           \<and> search_loop (a\<lparr>score_fn := log_likelihood_score (normalize_by_length a) (alpha a)\<rparr>)
                (init_state beams w) = Some r"
  using assms by (auto simp: beam_search_def Let_def split: sum.splits)

text \<open>
  C9, as amended. A round is one execution of the loop body. A call that ends yields
  exactly one value when \<open>yield_intermediate\<close> is false; when it is true it yields one
  value per round and the final value after them, the number of rounds plus one.
\<close>

theorem yields_count:
  assumes "beam_search a initial w = Some (Inr (n, outs))"
  shows "length outs = (if yield_intermediate a then n + 1 else 1)"
proof -
  from beam_search_Inr [OF assms] obtain beams where
    "search_loop (a\<lparr>score_fn := log_likelihood_score (normalize_by_length a) (alpha a)\<rparr>)
       (init_state beams w) = Some (n, outs)"
    by blast
  from search_loop_length [OF this] show ?thesis by simp
qed

lemma run_argsA_counts:
  "map_option (map_sum id (\<lambda>r. (fst r, length (snd r))))
     (beam_search argsA [Tokens [1], Tokens [2]] ()) = Some (Inr (4, 5))"
  by code_simp

theorem yields_count_witness:
  "\<exists>n outs. beam_search argsA [Tokens [1], Tokens [2]] () = Some (Inr (n, outs))
      \<and> length outs = n + 1 \<and> yield_intermediate argsA"
proof -
  from run_argsA_counts obtain x where
    x: "beam_search argsA [Tokens [1], Tokens [2]] () = Some x"
    and m: "map_sum id (\<lambda>r. (fst r, length (snd r))) x = Inr (4, 5)"
    by auto
  from m obtain n outs where "x = Inr (n, outs)" by (cases x) auto
  with x have r: "beam_search argsA [Tokens [1], Tokens [2]] () = Some (Inr (n, outs))"
    by simp
  have y: "yield_intermediate argsA" by (simp add: argsA_def)
  from yields_count [OF r] y have "length outs = n + 1" by simp
  with r y show ?thesis by blast
qed

text \<open>
  C9 as stated fails: with \<open>yield_intermediate\<close> set, a call whose only group is empty
  runs no round and still yields one value; "one element per round" would be none.
\<close>

theorem yields_count_counterexample:
  "beam_search argsA [Tokens []] () = Some (Inr (0, [[[]]])) \<and> yield_intermediate argsA
   \<and> length [[[]] :: unit beam list list] \<noteq> 0"
  by code_simp

text \<open>
  C5, as amended. A call with \<open>beam_width = 0\<close> is not rejected. When the initial beams
  are well-formed no round runs and the generator yields one value, in which the list
  of every group is empty; the only error is the one for an invalid initial entry.
\<close>

theorem beam_width_zero:
  assumes "beam_width a = 0"
  shows "beam_search a initial w =
           (case all_initial_beams initial of
              Inl e \<Rightarrow> Some (Inl e)
            | Inr beams \<Rightarrow> Some (Inr (0, [replicate (length initial) []])))"
proof (cases "all_initial_beams initial")
  case (Inl e)
  then show ?thesis by (simp add: beam_search_def)
next
  case (Inr beams)
  let ?a = "a\<lparr>score_fn := log_likelihood_score (normalize_by_length a) (alpha a)\<rparr>"
  have bw: "beam_width ?a = 0" using assms by simp
  have fin: "fst (filter_beams ?a (init_state beams w))"
    using filter_beams_zero [of ?a] bw by simp
  have "search_loop ?a (init_state beams w)
          = Some (0, [get_outputs ?a False (snd (filter_beams ?a (init_state beams w)))])"
    using fin by (subst search_loop.simps) simp
  moreover have "get_outputs ?a False (snd (filter_beams ?a (init_state beams w)))
          = replicate (length initial) []"
    using all_initial_beams_length [OF Inr]
    by (simp add: get_outputs_init_zero [OF bw] filter_beams_def Let_def init_state_def
        map_replicate_const)
  ultimately show ?thesis using Inr by (simp add: beam_search_def Let_def)
qed

theorem beam_width_zero_witness:
  "beam_width args0 = 0
   \<and> beam_search args0 [Tokens [1], Tokens [], Single (tok_beam [3] [0])] ()
       = Some (Inr (0, [[[], [], []]]))"
proof -
  have z: "beam_width args0 = 0" by (simp add: args0_def)
  from beam_width_zero [OF z, of "[Tokens [1], Tokens [], Single (tok_beam [3] [0])]" "()"] z
  show ?thesis by (simp add: numeral_3_eq_3)
qed

text \<open>
  C5 as stated fails: with \<open>beam_width = 0\<close> the call returns a value, an output of one
  element, rather than an error.
\<close>

theorem beam_width_zero_counterexample:
  "beam_width args0 = 0
   \<and> beam_search args0 [Tokens [1]] () = Some (Inr (0, [[[]]]))
   \<and> beam_search args0 [Tokens [1]] () \<noteq> Some (Inl ValueError)"
  by code_simp

text \<open>
  C2. The code does not do what the claim says: line 45 overwrites the \<open>score_fn\<close>
  argument, so the result of a call is the same for any two score functions supplied.
\<close>

theorem score_fn_ignored:
  "beam_search (a\<lparr>score_fn := f\<rparr>) initial w = beam_search (a\<lparr>score_fn := g\<rparr>) initial w"
  by (simp add: beam_search_def)


lemma run_argsA_final:
  "map_option (map_sum id (\<lambda>r. map (map token_ids) (last (snd r))))
     (beam_search argsA [Tokens [1], Tokens [2]] ())
    = Some (Inr [[[1, 5], [1, 1, 5]], [[2, 1, 1, 1, 1]]])"
  by code_simp

text \<open>
  C2 at a concrete call. The caller supplies the negated log-probability as
  \<open>score_fn\<close>, under which the beam \<open>[1, 1, 5]\<close> ranks above \<open>[1, 5]\<close>; the final
  output of group 0 is still ranked by the log-likelihood score, \<open>[1, 5]\<close> first.
\<close>

theorem score_fn_not_used:
  "map_option (map_sum id (\<lambda>r. map (map token_ids) (last (snd r))))
     (beam_search argsA [Tokens [1], Tokens [2]] ())
    = Some (Inr [[[1, 5], [1, 1, 5]], [[2, 1, 1, 1, 1]]])
   \<and> score_fn argsA (tok_beam [1, 5] [0, - 1]) < score_fn argsA (tok_beam [1, 1, 5] [0, - 2, - 1])"
proof -
  have "score_fn argsA (tok_beam [1, 5] [0, - 1]) < score_fn argsA (tok_beam [1, 1, 5] [0, - 2, - 1])"
    by (simp add: argsA_def tok_beam_def log_prob_def)
  with run_argsA_final show ?thesis by simp
qed

section \<open>Witnesses and counterexamples for the width and ranking claims\<close>

lemma stateA3_reached: "state_at argsA (Suc 2) stateA0 = Some stateA3"
  by code_simp

theorem width_bound_witness:
  "state_at argsA (Suc 2) stateA0 = Some stateA3
   \<and> list_all (\<lambda>g. int (length g) \<le> beam_width argsA) (current_beams stateA3)
   \<and> 0 \<le> beam_width argsA
   \<and> list_all (\<lambda>out. int (length out) \<le> beam_width argsA) (get_outputs argsA False stateA3)"
proof -
  have bw: "0 \<le> beam_width argsA" by (simp add: argsA_def)
  from width_bound [of argsA 2 stateA0 stateA3 False stateA3] stateA3_reached bw
  show ?thesis unfolding list_all_iff by blast
qed

text \<open>
  C1 as stated fails. In the search of \<open>argsA\<close> (beam width 2), after three rounds the
  finished queue of group 0 holds three beams, and the loop goes on for group 1.
\<close>

theorem width_bound_counterexample:
  "state_at argsA 3 stateA0 = Some stateA3
   \<and> length (beam_queues stateA3 ! 0) = 3 \<and> beam_width argsA = 2
   \<and> \<not> fst (filter_beams argsA stateA3)"
  by code_simp


theorem beam_search_terminates_witness:
  "grows argsA
   \<and> (\<exists>n outs. beam_search argsA [Tokens [1], Tokens [2]] () = Some (Inr (n, outs))
          \<and> n \<le> nat (max_length argsA))"
proof -
  have g: "grows argsA"
    by (auto simp: grows_def argsA_def append_candidate_def beam_len_def)
  from beam_search_terminates [OF g, of "[Tokens [1], Tokens [2]]" "()"] obtain r where
    r: "beam_search argsA [Tokens [1], Tokens [2]] () = Some r"
    and b: "\<forall>n outs. r = Inr (n, outs) \<longrightarrow> n \<le> nat (max_length argsA)" by blast
  from run_argsA_counts r obtain n outs where "r = Inr (n, outs)" by (cases r) auto
  with r b g show ?thesis by blast
qed

section \<open>A group whose candidates are all rejected\<close>

lemma materialize_accepted:
  "snd (materialize cf w cs) = map the (filter (\<lambda>r. r \<noteq> None) (candidate_results cf w cs))"
  by (induction cf w cs rule: materialize.induct) (auto simp: Let_def split: option.splits)

lemma materialize_Nil_iff:
  "snd (materialize cf w cs) = [] \<longleftrightarrow> list_all (\<lambda>r. r = None) (candidate_results cf w cs)"
  by (simp add: materialize_accepted filter_empty_conv list_all_iff)

lemma expand_groups_length: "length (snd (expand_groups a sc w idx gs)) = length gs"
  by (induction a sc w idx gs rule: expand_groups.induct) (auto simp: Let_def)

lemma select_candidates_Nil: "select_candidates a [] = []"
  by (simp add: select_candidates_def py_slice_to_def py_sorted_rev_def)

lemma expand_groups_empty:
  "i < length gs \<Longrightarrow> gs ! i = [] \<Longrightarrow> snd (expand_groups a sc w idx gs) ! i = []"
proof (induction a sc w idx gs arbitrary: i rule: expand_groups.induct)
  case (1 a sc w idx)
  then show ?case by simp
next
  case (2 a sc w idx g gs)
  show ?case
  proof (cases i)
    case 0
    with 2(3) have "g = []" by simp
    with 0 show ?thesis by (simp add: Let_def group_candidates_def select_candidates_Nil)
  next
    case (Suc j)
    with 2(2,3) have "j < length gs" "gs ! j = []" by simp_all
    from "2.IH" [OF refl this] Suc show ?thesis by (simp add: Let_def)
  qed
qed

lemma expand_groups_nth:
  "i < length gs \<Longrightarrow>
   snd (expand_groups a sc w idx gs) ! i =
     snd (materialize (candidate_fn a) (fst (expand_groups a sc w idx (take i gs)))
            (select_candidates a (group_candidates sc (idx + i) (gs ! i))))"
proof (induction a sc w idx gs arbitrary: i rule: expand_groups.induct)
  case (1 a sc w idx)
  then show ?case by simp
next
  case (2 a sc w idx g gs)
  show ?case
  proof (cases i)
    case 0
    then show ?thesis by (simp add: Let_def)
  next
    case (Suc j)
    with 2(2) have "j < length gs" by simp
    from "2.IH" [OF refl this] Suc show ?thesis by (simp add: Let_def)
  qed
qed

lemma round_rejected_iff:
  assumes "g < length (current_beams st)"
  shows "current_beams (round_body a st) ! g = []
           \<longleftrightarrow> list_all (\<lambda>r. r = None) (round_candidate_results a st g)"
  by (simp add: round_body_current round_candidate_results_def Let_def
      expand_groups_nth [OF assms] materialize_Nil_iff)

lemma filter_beams_lengths:
  "length (current_beams (snd (filter_beams a st))) = length (current_beams st)"
  "length (beam_queues (snd (filter_beams a st)))
     = min (length (beam_queues st)) (length (current_beams st))"
  by (simp_all add: filter_beams_def Let_def)

lemma filter_beams_nth:
  assumes "i < length (current_beams st)" and "i < length (beam_queues st)"
  shows "current_beams (snd (filter_beams a st)) ! i
           = filter (\<lambda>b. \<not> stops a b) (current_beams st ! i)"
    and "beam_queues (snd (filter_beams a st)) ! i
           = beam_queues st ! i @ filter (stops a) (current_beams st ! i)"
  using assms by (simp_all add: filter_beams_def Let_def)

lemma round_body_queues: "beam_queues (round_body a st) = beam_queues st"
  by (simp add: round_body_def Let_def)

lemma round_body_length: "length (current_beams (round_body a st)) = length (current_beams st)"
  by (simp add: round_body_current expand_groups_length)

lemma round_body_empty:
  "i < length (current_beams st) \<Longrightarrow> current_beams st ! i = [] \<Longrightarrow>
   current_beams (round_body a st) ! i = []"
  by (simp add: round_body_current expand_groups_empty)

lemma group_output_no_active:
  "group_output a False queue [] = py_slice_to (beam_width a) (py_sorted_rev (score_fn a) queue)"
  by (cases "queue = []") (simp_all add: group_output_final output_source_def)

lemma search_loop_empty_group:
  assumes "search_loop a st = Some r"
    and "i < length (current_beams st)" and "i < length (beam_queues st)"
    and "current_beams st ! i = []"
  shows "snd r \<noteq> [] \<and> last (snd r) ! i
           = py_slice_to (beam_width a) (py_sorted_rev (score_fn a) (beam_queues st ! i))"
  using assms
proof (induction rule: search_loop.raw_induct [rotated 1, consumes 1])
  case (1 loop a st r)
  let ?st1 = "snd (filter_beams a st)"
  have c1: "current_beams ?st1 ! i = []" and q1: "beam_queues ?st1 ! i = beam_queues st ! i"
    using filter_beams_nth [OF 1(3,4), of a] 1(5) by simp_all
  have l1: "i < length (current_beams ?st1)" "i < length (beam_queues ?st1)"
    using 1(3,4) by (simp_all add: filter_beams_lengths)
  show ?case
  proof (cases "fst (filter_beams a st)")
    case True
    with 1(2) have "snd r = [get_outputs a False ?st1]" by auto
    then show ?thesis
      using l1 c1 q1 by (simp add: get_outputs_nth group_output_no_active)
  next
    case False
    let ?st2 = "round_body a ?st1"
    from False 1(2) obtain r' where r': "loop a ?st2 = Some r'"
      and r: "snd r = (if yield_intermediate a then [get_outputs a True ?st2] else []) @ snd r'"
      by (auto simp: bind_eq_Some_conv)
    from round_body_empty [OF l1(1) c1] have "current_beams ?st2 ! i = []" .
    moreover have "i < length (current_beams ?st2)" "i < length (beam_queues ?st2)"
      using l1 by (simp_all add: round_body_length round_body_queues)
    ultimately have "snd r' \<noteq> [] \<and> last (snd r') ! i
           = py_slice_to (beam_width a) (py_sorted_rev (score_fn a) (beam_queues ?st2 ! i))"
      using 1(1) [OF r'] by blast
    with r q1 show ?thesis by (simp add: round_body_queues)
  qed
qed

lemma stops_score_fn: "stops (a\<lparr>score_fn := f\<rparr>) = stops a"
  by (rule ext) (simp add: stops_def)

lemma group_done_score_fn: "group_done (a\<lparr>score_fn := f\<rparr>) = group_done a"
  by (rule ext) (simp add: group_done_def)

lemma filter_beams_score_fn: "filter_beams (a\<lparr>score_fn := f\<rparr>) st = filter_beams a st"
  by (simp add: filter_beams_def stops_score_fn group_done_score_fn)

lemma select_candidates_score_fn: "select_candidates (a\<lparr>score_fn := f\<rparr>) = select_candidates a"
  by (rule ext) (simp add: select_candidates_def)

lemma expand_groups_score_fn:
  "expand_groups (a\<lparr>score_fn := f\<rparr>) sc w idx gs = expand_groups a sc w idx gs"
  by (induction gs arbitrary: w idx) (simp_all add: select_candidates_score_fn)

lemma round_body_score_fn: "current_beams (round_body (a\<lparr>score_fn := f\<rparr>) st) = current_beams (round_body a st)"
  by (simp add: round_body_current expand_groups_score_fn)

text \<open>
  C4, as amended. If round 1 runs and every call of the candidate function for a group
  in it returns \<open>None\<close>, then with \<open>return_incomplete\<close> false the entry of the group in
  the final output of a call that ends is the finished queue of the group as
  \<open>filter_beams\<close> left it at the start of round 1, ranked by the score and cut to
  \<open>beam_width\<close>: the empty list when no beam of the group had stopped by then.
\<close>

theorem rejected_group_output:
  assumes "all_initial_beams initial = Inr beams"
    and "beam_search a initial w = Some (Inr (n, outs))"
    and "g < length beams"
    and "\<not> fst (filter_beams a (init_state beams w))"
    and "list_all (\<lambda>r. r = None)
           (round_candidate_results a (snd (filter_beams a (init_state beams w))) g)"
    and "\<not> return_incomplete a"
  shows "last outs ! g =
           py_slice_to (beam_width a)
             (py_sorted_rev (log_likelihood_score (normalize_by_length a) (alpha a))
                (beam_queues (snd (filter_beams a (init_state beams w))) ! g))"
proof -
  let ?a = "a\<lparr>score_fn := log_likelihood_score (normalize_by_length a) (alpha a)\<rparr>"
  let ?st0 = "init_state beams w"
  let ?st1 = "snd (filter_beams ?a ?st0)"
  let ?st2 = "round_body ?a ?st1"
  have f: "filter_beams ?a ?st0 = filter_beams a ?st0" by (rule filter_beams_score_fn)
  from assms(1,2) have run: "search_loop ?a ?st0 = Some (n, outs)"
    using beam_search_Inr [OF assms(2)] by auto
  from assms(4) f have nf: "\<not> fst (filter_beams ?a ?st0)" by simp
  from run nf obtain r' where r': "search_loop ?a ?st2 = Some r'"
    and outs: "outs = (if yield_intermediate ?a then [get_outputs ?a True ?st2] else []) @ snd r'"
    by (subst (asm) search_loop.simps) (auto simp: bind_eq_Some_conv)
  have l0: "g < length (current_beams ?st0)" "g < length (beam_queues ?st0)"
    using assms(3) by (simp_all add: init_state_def)
  then have l1: "g < length (current_beams ?st1)" "g < length (beam_queues ?st1)"
    by (simp_all add: filter_beams_lengths)
  have "g < length (current_beams (snd (filter_beams a ?st0)))"
    using l1 f by simp
  from round_rejected_iff [OF this, of a] assms(5)
  have "current_beams (round_body a (snd (filter_beams a ?st0))) ! g = []" by simp
  then have c2: "current_beams ?st2 ! g = []"
    using f by (simp add: round_body_score_fn)
  have l2: "g < length (current_beams ?st2)" "g < length (beam_queues ?st2)"
    using l1 by (simp_all add: round_body_length round_body_queues)
  from search_loop_empty_group [OF r' l2 c2] outs
  have "last outs ! g = py_slice_to (beam_width ?a)
          (py_sorted_rev (score_fn ?a) (beam_queues ?st2 ! g))" by simp
  then show ?thesis using f by (simp add: round_body_queues)
qed

theorem rejected_group_output_witness:
  "all_initial_beams [Beams [tok_beam [1] [0], tok_beam [7] [0]]]
     = Inr [[tok_beam [1] [0], tok_beam [7] [0 :: real]] :: unit beam list]
   \<and> beam_search argsRF [Beams [tok_beam [1] [0], tok_beam [7] [0]]] ()
       = Some (Inr (1, [[[tok_beam [7] [0]]]]))
   \<and> \<not> fst (filter_beams argsRF (init_state [[tok_beam [1] [0], tok_beam [7] [0]]] ()))
   \<and> list_all (\<lambda>r. r = None)
        (round_candidate_results argsRF (snd (filter_beams argsRF
           (init_state [[tok_beam [1] [0], tok_beam [7] [0]]] ()))) 0)
   \<and> \<not> return_incomplete argsRF
   \<and> last [[[tok_beam [7] [0]]]] ! 0 =
        py_slice_to (beam_width argsRF)
          (py_sorted_rev (log_likelihood_score (normalize_by_length argsRF) (alpha argsRF))
             (beam_queues (snd (filter_beams argsRF
                (init_state [[tok_beam [1] [0], tok_beam [7] [0]]] ()))) ! 0))"
proof -
  let ?beams = "[[tok_beam [1] [0], tok_beam [7] [0 :: real]] :: unit beam list]"
  have i: "all_initial_beams [Beams [tok_beam [1] [0], tok_beam [7] [0]]] = Inr ?beams"
    by (simp add: tok_beam_def)
  have r: "beam_search argsRF [Beams [tok_beam [1] [0], tok_beam [7] [0]]] ()
             = Some (Inr (1, [[[tok_beam [7] [0]]]]))"
    by code_simp
  have g: "0 < length ?beams" by simp
  have f: "\<not> fst (filter_beams argsRF (init_state ?beams ()))"
    by code_simp
  have j: "list_all (\<lambda>r. r = None)
        (round_candidate_results argsRF (snd (filter_beams argsRF (init_state ?beams ()))) 0)"
    by code_simp
  have k: "\<not> return_incomplete argsRF" by (simp add: argsRF_def argsR_def)
  from rejected_group_output [OF i r g f j k] i r f j k show ?thesis by simp
qed

text \<open>
  C4 as stated fails. With \<open>return_incomplete\<close> false and every candidate of round 1
  rejected, a group one of whose initial beams had already stopped comes out as that
  beam, not empty. With \<open>return_incomplete\<close> true, the group that started with the
  active beam \<open>[1]\<close> comes out empty, not as its round-0 active beams.
\<close>

theorem rejected_group_output_counterexample:
  "\<not> return_incomplete argsRF
   \<and> list_all (\<lambda>r. r = None)
        (round_candidate_results argsRF (snd (filter_beams argsRF
           (init_state [[tok_beam [1] [0], tok_beam [7] [0]]] ()))) 0)
   \<and> beam_search argsRF [Beams [tok_beam [1] [0], tok_beam [7] [0]]] ()
       = Some (Inr (1, [[[tok_beam [7] [0]]]]))
   \<and> return_incomplete argsR
   \<and> list_all (\<lambda>r. r = None)
        (round_candidate_results argsR (snd (filter_beams argsR
           (init_state [[tok_beam [1] [0]]] ()))) 0)
   \<and> current_beams (snd (filter_beams argsR (init_state [[tok_beam [1] [0]]] ())))
       = [[tok_beam [1] [0]]]
   \<and> beam_search argsR [Tokens [1]] () = Some (Inr (1, [[[]]]))"
  by code_simp

section \<open>Determinism\<close>

inductive_cases partition_NilE: "partition_run c a w [] r"
inductive_cases partition_ConsE: "partition_run c a w (b # bs) r"
inductive_cases filter_groups_NilE: "filter_groups_run c a w [] qs r"
inductive_cases filter_groups_ConsE: "filter_groups_run c a w (g # gs) qs r"
inductive_cases materialize_NilE: "materialize_run c w [] r"
inductive_cases materialize_ConsE: "materialize_run c w (x # cs) r"
inductive_cases expand_groups_NilE: "expand_groups_run c a sc w idx [] r"
inductive_cases expand_groups_ConsE: "expand_groups_run c a sc w idx (g # gs) r"
inductive_cases yields_0E: "search_yields c a st 0 outs"
inductive_cases yields_SucE: "search_yields c a st (Suc k) outs"
inductive_cases ends_0E: "search_ends c a st 0 outs"
inductive_cases ends_SucE: "search_ends c a st (Suc k) outs"

lemma partition_ConsD:
  "partition_run c a w (b # bs) r \<Longrightarrow>
   \<exists>w1 s w2 new_beams stopped.
     stop_rel c w b (w1, s) \<and> partition_run c a w1 bs (w2, new_beams, stopped)
     \<and> r = (w2, if s \<or> max_length a \<le> int (beam_len b) then new_beams else b # new_beams,
              if s \<or> max_length a \<le> int (beam_len b) then b # stopped else stopped)"
  by (erule partition_ConsE) fastforce+

lemma partition_run_det:
  assumes "deterministic_stop c"
  shows "partition_run c a w bs r1 \<Longrightarrow> partition_run c a w bs r2 \<Longrightarrow> r1 = r2"
proof (induction bs arbitrary: w r1 r2)
  case Nil
  then show ?case by (auto elim: partition_NilE)
next
  case (Cons b bs)
  from partition_ConsD [OF Cons.prems(1)] obtain w1 s w2 new_beams stopped where
    s1: "stop_rel c w b (w1, s)" and p1: "partition_run c a w1 bs (w2, new_beams, stopped)"
    and r1: "r1 = (w2, if s \<or> max_length a \<le> int (beam_len b) then new_beams else b # new_beams,
              if s \<or> max_length a \<le> int (beam_len b) then b # stopped else stopped)"
    by blast
  from partition_ConsD [OF Cons.prems(2)] obtain w1' s' w2' new_beams' stopped' where
    s2: "stop_rel c w b (w1', s')" and p2: "partition_run c a w1' bs (w2', new_beams', stopped')"
    and r2: "r2 = (w2', if s' \<or> max_length a \<le> int (beam_len b) then new_beams' else b # new_beams',
              if s' \<or> max_length a \<le> int (beam_len b) then b # stopped' else stopped')"
    by blast
  from assms s1 s2 have e: "w1' = w1" "s' = s" by (auto simp: deterministic_stop_def)
  with Cons.IH [OF p1] p2 have "(w2, new_beams, stopped) = (w2', new_beams', stopped')" by simp
  with r1 r2 e show ?case by simp
qed

lemma filter_groups_ConsD:
  "filter_groups_run c a w (g # gs) qs r \<Longrightarrow>
   \<exists>q qs' w1 new_beams stopped w2 news queues'.
     qs = q # qs' \<and> partition_run c a w g (w1, new_beams, stopped)
     \<and> filter_groups_run c a w1 gs qs' (w2, news, queues')
     \<and> r = (w2, new_beams # news, (q @ stopped) # queues')"
  by (erule filter_groups_ConsE) fastforce

lemma filter_groups_run_det:
  assumes "deterministic_stop c"
  shows "filter_groups_run c a w gs qs r1 \<Longrightarrow> filter_groups_run c a w gs qs r2 \<Longrightarrow> r1 = r2"
proof (induction gs arbitrary: w qs r1 r2)
  case Nil
  then show ?case by (auto elim: filter_groups_NilE)
next
  case (Cons g gs)
  from filter_groups_ConsD [OF Cons.prems(1)] obtain q qs' w1 new_beams stopped w2 news queues' where
    q: "qs = q # qs'" and p1: "partition_run c a w g (w1, new_beams, stopped)"
    and f1: "filter_groups_run c a w1 gs qs' (w2, news, queues')"
    and r1: "r1 = (w2, new_beams # news, (q @ stopped) # queues')"
    by blast
  from filter_groups_ConsD [OF Cons.prems(2)] q obtain v1 new_beams2 stopped2 v2 news2 queues2 where
    p2: "partition_run c a w g (v1, new_beams2, stopped2)"
    and f2: "filter_groups_run c a v1 gs qs' (v2, news2, queues2)"
    and r2: "r2 = (v2, new_beams2 # news2, (q @ stopped2) # queues2)"
    by auto
  from partition_run_det [OF assms p1 p2] have e: "v1 = w1" "new_beams2 = new_beams" "stopped2 = stopped"
    by simp_all
  with Cons.IH [OF f1] f2 have "(w2, news, queues') = (v2, news2, queues2)" by simp
  with r1 r2 e show ?case by simp
qed

lemma filter_run_det:
  assumes "deterministic_stop c"
  shows "filter_run c a st r1 \<Longrightarrow> filter_run c a st r2 \<Longrightarrow> r1 = r2"
  by (auto elim!: filter_run.cases dest: filter_groups_run_det [OF assms])

lemma materialize_ConsD:
  "materialize_run c w ((b, t, lp) # cs) r \<Longrightarrow>
   \<exists>w1 res w2 rest.
     candidate_rel c w b t lp (w1, res) \<and> materialize_run c w1 cs (w2, rest)
     \<and> r = (w2, case res of None \<Rightarrow> rest | Some x \<Rightarrow> x # rest)"
  by (erule materialize_ConsE) fastforce+

lemma materialize_run_det:
  assumes "deterministic_candidate c"
  shows "materialize_run c w cs r1 \<Longrightarrow> materialize_run c w cs r2 \<Longrightarrow> r1 = r2"
proof (induction cs arbitrary: w r1 r2)
  case Nil
  then show ?case by (auto elim: materialize_NilE)
next
  case (Cons x cs)
  obtain b t lp where x: "x = (b, t, lp)" by (cases x) auto
  from Cons.prems x have p1: "materialize_run c w ((b, t, lp) # cs) r1"
    and p2: "materialize_run c w ((b, t, lp) # cs) r2" by simp_all
  from materialize_ConsD [OF p1] obtain w1 res w2 rest where
    c1: "candidate_rel c w b t lp (w1, res)" and m1: "materialize_run c w1 cs (w2, rest)"
    and r1: "r1 = (w2, case res of None \<Rightarrow> rest | Some y \<Rightarrow> y # rest)"
    by blast
  from materialize_ConsD [OF p2] obtain v1 res2 v2 rest2 where
    c2: "candidate_rel c w b t lp (v1, res2)" and m2: "materialize_run c v1 cs (v2, rest2)"
    and r2: "r2 = (v2, case res2 of None \<Rightarrow> rest2 | Some y \<Rightarrow> y # rest2)"
    by blast
  from assms c1 c2 have e: "v1 = w1" "res2 = res" by (auto simp: deterministic_candidate_def)
  with Cons.IH [OF m1] m2 have "w2 = v2" "rest = rest2" by auto
  with r1 r2 e show ?case by (cases res) simp_all
qed

lemma expand_groups_ConsD:
  "expand_groups_run c a sc w idx (g # gs) r \<Longrightarrow>
   \<exists>w1 new w2 rest.
     materialize_run c w (select_candidates a (group_candidates sc idx g)) (w1, new)
     \<and> expand_groups_run c a sc w1 (Suc idx) gs (w2, rest) \<and> r = (w2, new # rest)"
  by (erule expand_groups_ConsE) fastforce

lemma expand_groups_run_det:
  assumes "deterministic_candidate c"
  shows "expand_groups_run c a sc w idx gs r1 \<Longrightarrow> expand_groups_run c a sc w idx gs r2 \<Longrightarrow> r1 = r2"
proof (induction gs arbitrary: w idx r1 r2)
  case Nil
  then show ?case by (auto elim: expand_groups_NilE)
next
  case (Cons g gs)
  from expand_groups_ConsD [OF Cons.prems(1)] obtain w1 new w2 rest where
    m1: "materialize_run c w (select_candidates a (group_candidates sc idx g)) (w1, new)"
    and e1: "expand_groups_run c a sc w1 (Suc idx) gs (w2, rest)" and r1: "r1 = (w2, new # rest)"
    by blast
  from expand_groups_ConsD [OF Cons.prems(2)] obtain v1 new2 v2 rest2 where
    m2: "materialize_run c w (select_candidates a (group_candidates sc idx g)) (v1, new2)"
    and e2: "expand_groups_run c a sc v1 (Suc idx) gs (v2, rest2)" and r2: "r2 = (v2, new2 # rest2)"
    by blast
  from materialize_run_det [OF assms m1 m2] have e: "v1 = w1" "new2 = new" by simp_all
  with Cons.IH [OF e1] e2 have "(w2, rest) = (v2, rest2)" by simp
  with r1 r2 e show ?case by simp
qed

lemma round_run_det:
  assumes "deterministic_decode c" and "deterministic_candidate c"
  shows "round_run c a st s1 \<Longrightarrow> round_run c a st s2 \<Longrightarrow> s1 = s2"
proof (erule round_run.cases, erule round_run.cases)
  fix st1 w1 sc1 w2 new1 st2 v1 sc2 v2 new2
  assume a1: "st = st1" "s1 = st1\<lparr>current_beams := new1, update_info := map length new1, world := w2\<rparr>"
    "decode_rel c (world st1) (update_info st1) (current_beams st1) (w1, sc1)"
    "expand_groups_run c a sc1 w1 0 (current_beams st1) (w2, new1)"
  assume a2: "st = st2" "s2 = st2\<lparr>current_beams := new2, update_info := map length new2, world := v2\<rparr>"
    "decode_rel c (world st2) (update_info st2) (current_beams st2) (v1, sc2)"
    "expand_groups_run c a sc2 v1 0 (current_beams st2) (v2, new2)"
  from a1(1) a2(1) have st: "st2 = st1" by simp
  with assms(1) a1(3) a2(3) have e: "v1 = w1" "sc2 = sc1" by (auto simp: deterministic_decode_def)
  with a1(4) a2(4) st expand_groups_run_det [OF assms(2)] have "(w2, new1) = (v2, new2)" by blast
  with a1(2) a2(2) st show "s1 = s2" by simp
qed

lemma search_yields_det:
  assumes "deterministic_decode c" and "deterministic_candidate c" and "deterministic_stop c"
  shows "search_yields c a st k o1 \<Longrightarrow> search_yields c a st k o2 \<Longrightarrow> o1 = o2"
proof (induction arbitrary: o2 rule: search_yields.induct)
  case (yields_none st)
  then show ?case by (auto elim: yields_0E)
next
  case (yields_round st st1 st2 k outs)
  from yields_round.prems obtain s1 s2 outs2 where
    f: "filter_run c a st (False, s1)" and r: "round_run c a s1 s2"
    and y: "search_yields c a s2 k outs2" and o: "o2 = intermediate_yield a s2 @ outs2"
    by (auto elim: yields_SucE)
  from filter_run_det [OF assms(3) yields_round.hyps(1) f] have "s1 = st1" by simp
  with round_run_det [OF assms(1,2) yields_round.hyps(2)] r have "s2 = st2" by simp
  with yields_round.IH y o show ?case by simp
qed

lemma search_ends_det:
  assumes "deterministic_decode c" and "deterministic_candidate c" and "deterministic_stop c"
  shows "search_ends c a st k1 o1 \<Longrightarrow> search_ends c a st k2 o2 \<Longrightarrow> k1 = k2 \<and> o1 = o2"
proof (induction arbitrary: k2 o2 rule: search_ends.induct)
  case (ends_now st st1)
  from ends_now.prems show ?case
  proof (cases rule: search_ends.cases)
    case (ends_now s1)
    with filter_run_det [OF assms(3) ends_now.hyps] show ?thesis by auto
  next
    case (ends_round s1 s2 k outs)
    with filter_run_det [OF assms(3) \<open>filter_run c a st (True, st1)\<close>] show ?thesis by auto
  qed
next
  case (ends_round st st1 st2 k outs)
  from ends_round.prems show ?case
  proof (cases rule: search_ends.cases)
    case (ends_now s1)
    with filter_run_det [OF assms(3) ends_round.hyps(1)] show ?thesis by auto
  next
    case (ends_round s1 s2 k' outs')
    from filter_run_det [OF assms(3) ends_round.hyps(1) ends_round(3)] have "s1 = st1" by simp
    with round_run_det [OF assms(1,2) ends_round.hyps(2)] ends_round(4) have "s2 = st2" by simp
    with ends_round.IH ends_round(1,2,5) show ?thesis by auto
  qed
qed

lemma search_ends_stops:
  assumes "deterministic_decode c" and "deterministic_candidate c" and "deterministic_stop c"
  shows "search_ends c a st k o1 \<Longrightarrow> \<not> search_yields c a st (Suc k) o2"
proof (induction arbitrary: o2 rule: search_ends.induct)
  case (ends_now st st1)
  show ?case
  proof
    assume "search_yields c a st (Suc 0) o2"
    then obtain s1 where "filter_run c a st (False, s1)" by (auto elim: yields_SucE)
    with filter_run_det [OF assms(3) ends_now.hyps] show False by auto
  qed
next
  case (ends_round st st1 st2 k outs)
  show ?case
  proof
    assume "search_yields c a st (Suc (Suc k)) o2"
    then obtain s1 s2 outs2 where
      f: "filter_run c a st (False, s1)" and r: "round_run c a s1 s2"
      and y: "search_yields c a s2 (Suc k) outs2"
      by (auto elim: yields_SucE)
    from filter_run_det [OF assms(3) ends_round.hyps(1) f] have "s1 = st1" by simp
    with round_run_det [OF assms(1,2) ends_round.hyps(2)] r have "s2 = st2" by simp
    with ends_round.IH y show False by simp
  qed
qed

text \<open>
  C7, as amended. When the decode step (the decode function with the logit, select and
  update functions and the sampler), the candidate function and the stop function are
  deterministic, two runs of one call from the same outside state yield the same
  outputs in their first \<open>k\<close> rounds, for every \<open>k\<close>; if both end they end after the
  same number of rounds with the same sequence of outputs; and if one ends after \<open>k\<close>
  rounds the other cannot execute more than \<open>k\<close> rounds.
\<close>

theorem beam_search_runs_deterministic:
  assumes "deterministic_decode c" and "deterministic_candidate c" and "deterministic_stop c"
  shows "(beam_search_yields c a initial w k o1 \<longrightarrow> beam_search_yields c a initial w k o2 \<longrightarrow> o1 = o2)
       \<and> (beam_search_ends c a initial w k1 e1 \<longrightarrow> beam_search_ends c a initial w k2 e2
            \<longrightarrow> k1 = k2 \<and> e1 = e2)
       \<and> (beam_search_ends c a initial w k1 e1 \<longrightarrow> \<not> beam_search_yields c a initial w (Suc k1) o3)"
  unfolding beam_search_yields_def beam_search_ends_def
  using search_yields_det [OF assms] search_ends_det [OF assms] search_ends_stops [OF assms]
  by (metis sum.inject(2))

text \<open>
  For the callables of the functional model the runs are those of \<open>search_loop\<close>.
\<close>

lemma partition_run_of:
  "partition_run (callables_of a) a w bs (w, filter (\<lambda>b. \<not> stops a b) bs, filter (stops a) bs)"
proof (induction bs)
  case Nil
  show ?case by (simp add: partition_done)
next
  case (Cons b bs)
  have s: "stop_rel (callables_of a) w b (w, stop_fn a b)" by (simp add: callables_of_def)
  show ?case
  proof (cases "stops a b")
    case True
    then have "stop_fn a b \<or> max_length a \<le> int (beam_len b)" by (simp add: stops_def)
    from partition_stop [OF s this Cons] True show ?thesis by simp
  next
    case False
    then have "\<not> (stop_fn a b \<or> max_length a \<le> int (beam_len b))" by (simp add: stops_def)
    from partition_keep [OF s this Cons] False show ?thesis by simp
  qed
qed

lemma filter_groups_run_of:
  "length gs = length qs \<Longrightarrow>
   filter_groups_run (callables_of a) a w gs qs
     (w, map (filter (\<lambda>b. \<not> stops a b)) gs, map2 (\<lambda>queue current. queue @ filter (stops a) current) qs gs)"
proof (induction gs qs rule: list_induct2)
  case Nil
  show ?case by (simp add: filter_groups_done)
next
  case (Cons g gs q qs)
  from filter_groups_step [OF partition_run_of Cons.IH] show ?case by simp
qed

lemma filter_run_of:
  assumes "length (current_beams st) = length (beam_queues st)"
  shows "filter_run (callables_of a) a st (filter_beams a st)"
  using filter_runI [OF filter_groups_run_of [OF assms, of a "world st"]]
  by (simp add: filter_beams_def Let_def)

lemma materialize_run_of:
  "materialize_run (callables_of a) w cs (materialize (candidate_fn a) w cs)"
proof (induction cs arbitrary: w)
  case Nil
  show ?case by (simp add: materialize_done)
next
  case (Cons x cs)
  obtain b t lp where x: "x = (b, t, lp)" by (cases x) auto
  let ?r = "candidate_fn a w b t lp"
  let ?rest = "materialize (candidate_fn a) (fst ?r) cs"
  have rest: "materialize_run (callables_of a) (fst ?r) cs (fst ?rest, snd ?rest)"
    using Cons [of "fst ?r"] by simp
  show ?case
  proof (cases "snd ?r")
    case None
    then have "candidate_rel (callables_of a) w b t lp (fst ?r, None)"
      by (simp add: callables_of_def prod_eq_iff)
    from materialize_reject [OF this rest] x None show ?thesis by (simp add: Let_def)
  next
    case (Some y)
    then have "candidate_rel (callables_of a) w b t lp (fst ?r, Some y)"
      by (simp add: callables_of_def prod_eq_iff)
    from materialize_accept [OF this rest] x Some show ?thesis by (simp add: Let_def)
  qed
qed

lemma expand_groups_run_of:
  "expand_groups_run (callables_of a) a sc w idx gs (expand_groups a sc w idx gs)"
proof (induction gs arbitrary: w idx)
  case Nil
  show ?case by (simp add: expand_groups_done)
next
  case (Cons g gs)
  let ?new = "materialize (candidate_fn a) w (select_candidates a (group_candidates sc idx g))"
  let ?rest = "expand_groups a sc (fst ?new) (Suc idx) gs"
  have m: "materialize_run (callables_of a) w (select_candidates a (group_candidates sc idx g))
             (fst ?new, snd ?new)"
    using materialize_run_of [of a w] by simp
  have e: "expand_groups_run (callables_of a) a sc (fst ?new) (Suc idx) gs (fst ?rest, snd ?rest)"
    using Cons [of "fst ?new" "Suc idx"] by simp
  from expand_groups_step [OF m e] show ?case by (simp add: Let_def)
qed

lemma round_run_of: "round_run (callables_of a) a st (round_body a st)"
proof -
  let ?dec = "decode_step a (world st) (update_info st) (current_beams st)"
  let ?new = "expand_groups a (snd ?dec) (fst ?dec) 0 (current_beams st)"
  have d: "decode_rel (callables_of a) (world st) (update_info st) (current_beams st)
             (fst ?dec, snd ?dec)"
    by (simp add: callables_of_def)
  have e: "expand_groups_run (callables_of a) a (snd ?dec) (fst ?dec) 0 (current_beams st)
             (fst ?new, snd ?new)"
    using expand_groups_run_of [of a "snd ?dec" "fst ?dec" 0 "current_beams st"] by simp
  from round_runI [OF d e] show ?thesis by (simp add: round_body_def Let_def)
qed

lemma filter_beams_same_length:
  "length (current_beams st) = length (beam_queues st) \<Longrightarrow>
   length (current_beams (snd (filter_beams a st))) = length (beam_queues (snd (filter_beams a st)))"
  by (simp add: filter_beams_lengths)

lemma round_body_same_length:
  "length (current_beams st) = length (beam_queues st) \<Longrightarrow>
   length (current_beams (round_body a st)) = length (beam_queues (round_body a st))"
  by (simp add: round_body_length round_body_queues)

lemma search_loop_ends:
  assumes "search_loop a st = Some r" and "length (current_beams st) = length (beam_queues st)"
  shows "search_ends (callables_of a) a st (fst r) (snd r)"
  using assms
proof (induction rule: search_loop.raw_induct [rotated 1, consumes 1])
  case (1 loop a st r)
  note f = filter_run_of [OF 1(3), of a]
  show ?case
  proof (cases "fst (filter_beams a st)")
    case True
    with f have "filter_run (callables_of a) a st (True, snd (filter_beams a st))"
      by (metis prod.collapse)
    from ends_now [OF this] True 1(2) show ?thesis by auto
  next
    case False
    let ?st1 = "snd (filter_beams a st)"
    let ?st2 = "round_body a ?st1"
    from False f have f': "filter_run (callables_of a) a st (False, ?st1)"
      by (metis prod.collapse)
    from False 1(2) obtain r' where r': "loop a ?st2 = Some r'"
      and r: "r = (Suc (fst r'), intermediate_yield a ?st2 @ snd r')"
      by (auto simp: bind_eq_Some_conv intermediate_yield_def)
    have "length (current_beams ?st2) = length (beam_queues ?st2)"
      using round_body_same_length [OF filter_beams_same_length [OF 1(3)]] .
    from 1(1) [OF r' this] have "search_ends (callables_of a) a ?st2 (fst r') (snd r')" .
    from ends_round [OF f' round_run_of this] r show ?thesis by simp
  qed
qed

lemma callables_of_deterministic:
  "deterministic_decode (callables_of a)" "deterministic_candidate (callables_of a)"
  "deterministic_stop (callables_of a)"
  by (simp_all add: deterministic_decode_def deterministic_candidate_def deterministic_stop_def
      callables_of_def)

lemma callables_of_score_fn: "callables_of (a\<lparr>score_fn := f\<rparr>) = callables_of a"
  by (simp add: callables_of_def)

lemma beam_search_ends_of:
  assumes "beam_search a initial w = Some (Inr (n, outs))"
  shows "beam_search_ends (callables_of a) a initial w n outs"
proof -
  let ?a = "a\<lparr>score_fn := log_likelihood_score (normalize_by_length a) (alpha a)\<rparr>"
  from beam_search_Inr [OF assms] obtain beams where
    i: "all_initial_beams initial = Inr beams"
    and r: "search_loop ?a (init_state beams w) = Some (n, outs)" by blast
  have "length (current_beams (init_state beams w)) = length (beam_queues (init_state beams w))"
    by (simp add: init_state_def)
  from search_loop_ends [OF r this] i show ?thesis
    by (auto simp: beam_search_ends_def callables_of_score_fn)
qed

lemma filter_run_of_eq:
  assumes "length (current_beams st) = length (beam_queues st)"
    and "filter_run (callables_of a) a st r"
  shows "r = filter_beams a st"
  using filter_run_det [OF callables_of_deterministic(3) assms(2) filter_run_of [OF assms(1)]] .

lemma round_run_of_eq: "round_run (callables_of a) a st st' \<Longrightarrow> st' = round_body a st"
  using round_run_det [OF callables_of_deterministic(1,2) _ round_run_of] by blast

lemma search_ends_loop:
  assumes "search_ends (callables_of a) a st k outs"
    and "length (current_beams st) = length (beam_queues st)"
  shows "search_loop a st = Some (k, outs)"
  using assms
proof (induction rule: search_ends.induct)
  case (ends_now st st1)
  from filter_run_of_eq [OF ends_now(2,1)] have "filter_beams a st = (True, st1)" by simp
  with search_loop_done [of a st] show ?case by simp
next
  case (ends_round st st1 st2 k outs)
  from filter_run_of_eq [OF ends_round(5,1)] have f: "filter_beams a st = (False, st1)" by simp
  from round_run_of_eq [OF ends_round(2)] have r: "st2 = round_body a st1" .
  have "length (current_beams st2) = length (beam_queues st2)"
    using round_body_same_length [OF filter_beams_same_length [OF ends_round(5), of a]] f r by simp
  from ends_round.IH [OF this] have "search_loop a st2 = Some (k, outs)" .
  with search_loop_round [of a st "(k, outs)"] f r show ?case
    by (simp add: intermediate_yield_def)
qed

lemma random_stop_run1:
  "beam_search_ends calls_random_stop args1 [Beams [tok_beam [1] [0], tok_beam [2] [0]]] () 0
     [[[tok_beam [1] [0]]]]"
proof -
  let ?a = "args1\<lparr>score_fn := log_likelihood_score (normalize_by_length args1) (alpha args1)\<rparr>"
  let ?b1 = "tok_beam [1] [0] :: unit beam" and ?b2 = "tok_beam [2] [0] :: unit beam"
  let ?st0 = "init_state [[?b1, ?b2]] ()"
  have s1: "stop_rel calls_random_stop () ?b1 ((), True)"
    and s2: "stop_rel calls_random_stop () ?b2 ((), False)"
    by (simp_all add: calls_random_stop_def)
  have n2: "\<not> (False \<or> max_length ?a \<le> int (beam_len ?b2))"
    by (simp add: args1_def argsA_def tok_beam_def beam_len_def)
  have "partition_run calls_random_stop ?a () [?b1, ?b2] ((), [?b2], [?b1])"
    by (rule partition_stop [OF s1 _ partition_keep [OF s2 n2 partition_done]]) simp
  from filter_groups_step [OF this filter_groups_done, of "[]"]
  have "filter_groups_run calls_random_stop ?a (world ?st0) (current_beams ?st0) (beam_queues ?st0)
          ((), [[?b2]], [[?b1]])"
    by (simp add: init_state_def)
  from filter_runI [OF this]
  have "filter_run calls_random_stop ?a ?st0
          (True, ?st0\<lparr>current_beams := [[?b2]], beam_queues := [[?b1]], world := ()\<rparr>)"
    by (simp add: group_done_def args1_def)
  from ends_now [OF this]
  have "search_ends calls_random_stop ?a ?st0 0 [[[?b1]]]"
    by (simp add: get_outputs_def group_output_def Let_def py_sorted_rev_def py_slice_to_def
        args1_def argsA_def)
  then show ?thesis by (simp add: beam_search_ends_def tok_beam_def)
qed

lemma random_stop_run2:
  "beam_search_ends calls_random_stop args1 [Beams [tok_beam [1] [0], tok_beam [2] [0]]] () 0
     [[[tok_beam [2] [0]]]]"
proof -
  let ?a = "args1\<lparr>score_fn := log_likelihood_score (normalize_by_length args1) (alpha args1)\<rparr>"
  let ?b1 = "tok_beam [1] [0] :: unit beam" and ?b2 = "tok_beam [2] [0] :: unit beam"
  let ?st0 = "init_state [[?b1, ?b2]] ()"
  have s1: "stop_rel calls_random_stop () ?b1 ((), False)"
    and s2: "stop_rel calls_random_stop () ?b2 ((), True)"
    by (simp_all add: calls_random_stop_def)
  have n1: "\<not> (False \<or> max_length ?a \<le> int (beam_len ?b1))"
    by (simp add: args1_def argsA_def tok_beam_def beam_len_def)
  have "partition_run calls_random_stop ?a () [?b1, ?b2] ((), [?b1], [?b2])"
    by (rule partition_keep [OF s1 n1 partition_stop [OF s2 _ partition_done]]) simp
  from filter_groups_step [OF this filter_groups_done, of "[]"]
  have "filter_groups_run calls_random_stop ?a (world ?st0) (current_beams ?st0) (beam_queues ?st0)
          ((), [[?b1]], [[?b2]])"
    by (simp add: init_state_def)
  from filter_runI [OF this]
  have "filter_run calls_random_stop ?a ?st0
          (True, ?st0\<lparr>current_beams := [[?b1]], beam_queues := [[?b2]], world := ()\<rparr>)"
    by (simp add: group_done_def args1_def)
  from ends_now [OF this]
  have "search_ends calls_random_stop ?a ?st0 0 [[[?b2]]]"
    by (simp add: get_outputs_def group_output_def Let_def py_sorted_rev_def py_slice_to_def
        args1_def argsA_def)
  then show ?thesis by (simp add: beam_search_ends_def tok_beam_def)
qed

text \<open>
  C7 as stated fails. With a deterministic decode step and candidate function and a stop
  function that may answer either way, two runs of the same call with beam width 1 on
  the group \<open>[1], [2]\<close> end with different outputs: in one \<open>[1]\<close> stops first, in the
  other \<open>[2]\<close>.
\<close>

theorem beam_search_runs_deterministic_counterexample:
  "deterministic_decode calls_random_stop \<and> deterministic_candidate calls_random_stop
   \<and> beam_search_ends calls_random_stop args1 [Beams [tok_beam [1] [0], tok_beam [2] [0]]] () 0
        [[[tok_beam [1] [0]]]]
   \<and> beam_search_ends calls_random_stop args1 [Beams [tok_beam [1] [0], tok_beam [2] [0]]] () 0
        [[[tok_beam [2] [0]]]]
   \<and> [[[tok_beam [1] [0]]]] \<noteq> [[[tok_beam [2] [0] :: unit beam]]]"
proof -
  have "deterministic_decode calls_random_stop" "deterministic_candidate calls_random_stop"
    by (simp_all add: deterministic_decode_def deterministic_candidate_def calls_random_stop_def
        callables_of_def)
  moreover have "[[[tok_beam [1] [0]]]] \<noteq> [[[tok_beam [2] [0] :: unit beam]]]"
    by (simp add: tok_beam_def)
  ultimately show ?thesis using random_stop_run1 random_stop_run2 by simp
qed

theorem beam_search_runs_deterministic_witness:
  "deterministic_decode (callables_of argsA) \<and> deterministic_candidate (callables_of argsA)
   \<and> deterministic_stop (callables_of argsA)
   \<and> beam_search_yields (callables_of argsA) argsA [Tokens [1], Tokens [2]] () 0 []
   \<and> (\<exists>outs. beam_search_ends (callables_of argsA) argsA [Tokens [1], Tokens [2]] () 4 outs
         \<and> \<not> beam_search_yields (callables_of argsA) argsA [Tokens [1], Tokens [2]] () 5 outs)"
proof -
  note d = callables_of_deterministic [of argsA]
  from run_argsA_counts obtain x where
    x: "beam_search argsA [Tokens [1], Tokens [2]] () = Some x"
    and m: "map_sum id (\<lambda>r. (fst r, length (snd r))) x = Inr (4, 5)"
    by auto
  from m obtain outs where "x = Inr (4, outs)" by (cases x) auto
  with x have "beam_search argsA [Tokens [1], Tokens [2]] () = Some (Inr (4, outs))" by simp
  from beam_search_ends_of [OF this]
  have e: "beam_search_ends (callables_of argsA) argsA [Tokens [1], Tokens [2]] () 4 outs" .
  have y: "beam_search_yields (callables_of argsA) argsA [Tokens [1], Tokens [2]] () 0 []"
    by (simp add: beam_search_yields_def yields_none tok_beam_def)
  from beam_search_runs_deterministic [OF d, of argsA "[Tokens [1], Tokens [2]]" "()" 0 "[]" "[]"
      4 outs 4 outs outs] e
  have "\<not> beam_search_yields (callables_of argsA) argsA [Tokens [1], Tokens [2]] () 5 outs"
    by simp
  with d e y show ?thesis by blast
qed

section \<open>A search that does not end\<close>

lemma stuck_filter:
  "stuck st \<Longrightarrow> \<not> fst (filter_beams (argsS\<lparr>score_fn := f\<rparr>) st)
     \<and> snd (filter_beams (argsS\<lparr>score_fn := f\<rparr>) st) = st"
  by (auto simp: stuck_def filter_beams_def Let_def argsS_def argsA_def stops_def group_done_def
      tok_beam_def beam_len_def)

lemma stuck_round: "stuck st \<Longrightarrow> stuck (round_body (argsS\<lparr>score_fn := f\<rparr>) st)"
  apply (auto simp: stuck_def round_body_def Let_def argsS_def argsA_def decodeA_def
      group_candidates_def select_candidates_def py_slice_to_def py_sorted_rev_def
      tok_beam_def beam_len_def log_prob_def enumerate_eq_zip)
  done

lemma stuck_never_returns:
  assumes "search_loop a st = Some r" and "a = argsS\<lparr>score_fn := f\<rparr>" and "stuck st"
  shows False
  using assms
proof (induction rule: search_loop.raw_induct [rotated 1, consumes 1])
  case (1 loop a st r)
  from stuck_filter [OF 1(4), of f] 1(3) have f: "\<not> fst (filter_beams a st)" "snd (filter_beams a st) = st"
    by simp_all
  with 1(2) obtain r' where "loop a (round_body a st) = Some r'"
    by (auto simp: bind_eq_Some_conv)
  from 1(1) [OF this 1(3)] stuck_round [OF 1(4), of f] 1(3) show False by simp
qed

text \<open>
  C3 as stated fails. With a candidate function that returns the parent unchanged the
  beams never reach the cap: with \<open>max_length = 2\<close> the loop is still running after
  three rounds, and the call never returns.
\<close>

theorem beam_search_terminates_counterexample:
  "max_length argsS = 2
   \<and> map_option current_beams (state_at argsS 3 (init_state [[tok_beam [1] [0]]] ()))
       = Some [[tok_beam [1] [0], tok_beam [1] [0]]]
   \<and> beam_search argsS [Tokens [1]] () = None"
proof -
  have s: "stuck (init_state [[tok_beam [1] [0]]] ())"
    by (simp add: stuck_def init_state_def)
  have "search_loop (argsS\<lparr>score_fn := f\<rparr>) (init_state [[tok_beam [1] [0]]] ()) = None" for f
    using stuck_never_returns [OF _ refl s, of f]
    by (cases "search_loop (argsS\<lparr>score_fn := f\<rparr>) (init_state [[tok_beam [1] [0]]] ())") auto
  then have "beam_search argsS [Tokens [1]] () = None"
    by (simp add: beam_search_def Let_def tok_beam_def argsS_def)
  moreover have "map_option current_beams (state_at argsS 3 (init_state [[tok_beam [1] [0]]] ()))
       = Some [[tok_beam [1] [0], tok_beam [1] [0]]]"
    by code_simp
  moreover have "max_length argsS = 2" by (simp add: argsS_def)
  ultimately show ?thesis by simp
qed

end
